theory Spec2Isabelle
  imports Complex_Main
begin

section \<open>Python string primitives used by the cleaner\<close>

text \<open>
  A Python \<open>str\<close> is modelled as a \<open>string\<close> whose characters are the code points
  below 256 (Latin-1).  \<open>str.strip\<close>, the regular-expression class \<open>\s\<close> (on a
  \<open>str\<close> pattern) and \<open>str.isspace\<close> agree on what whitespace is; in this range it
  is the twelve characters below.
\<close>

definition isspace :: "char \<Rightarrow> bool" where
  "isspace c = (c \<in> set [CHR 0x09, CHR 0x0A, CHR 0x0B, CHR 0x0C, CHR 0x0D,
                          CHR 0x1C, CHR 0x1D, CHR 0x1E, CHR 0x1F, CHR 0x20,
                          CHR 0x85, CHR 0xA0])"

definition lstrip :: "string \<Rightarrow> string" where
  "lstrip s = dropWhile isspace s"

definition rstrip :: "string \<Rightarrow> string" where
  "rstrip s = rev (dropWhile isspace (rev s))"

definition strip :: "string \<Rightarrow> string" where
  \<comment> \<open>\<open>s.strip()\<close>\<close>
  "strip s = rstrip (lstrip s)"

function sub_whitespace :: "string \<Rightarrow> string" where
  \<comment> \<open>\<open>re.sub(r'\s+', ' ', s)\<close>: every maximal run of whitespace becomes one space\<close>
  "sub_whitespace [] = []"
| "sub_whitespace (c # cs) =
     (if isspace c then CHR '' '' # sub_whitespace (dropWhile isspace cs)
      else c # sub_whitespace cs)"
  by pat_completeness auto
termination
  by (relation "measure length") (auto simp: length_dropWhile_le less_Suc_eq_le)

definition lower_char :: "char \<Rightarrow> char" where
  \<comment> \<open>\<open>str.lower\<close> on one Latin-1 character: A-Z, and the accented capitals except the
      multiplication sign\<close>
  "lower_char c =
     (let n = (of_char c :: nat)
      in if (65 \<le> n \<and> n \<le> 90) \<or> (192 \<le> n \<and> n \<le> 222 \<and> n \<noteq> 215)
         then char_of (n + 32) else c)"

definition lower :: "string \<Rightarrow> string" where
  "lower s = map lower_char s"

definition allowed :: "char \<Rightarrow> bool" where
  \<comment> \<open>the character class \<open>[A-Za-z0-9_]\<close>\<close>
  "allowed c =
     (let n = (of_char c :: nat)
      in (65 \<le> n \<and> n \<le> 90) \<or> (97 \<le> n \<and> n \<le> 122) \<or> (48 \<le> n \<and> n \<le> 57) \<or> n = 95)"

function sub_special :: "string \<Rightarrow> string" where
  \<comment> \<open>\<open>re.sub(r'[^A-Za-z0-9_]+', '_', s)\<close>, what \<open>str.replace(..., regex=True)\<close> does to
      each name\<close>
  "sub_special [] = []"
| "sub_special (c # cs) =
     (if allowed c then c # sub_special cs
      else CHR ''_'' # sub_special (dropWhile (\<lambda>x. \<not> allowed x) cs))"
  by pat_completeness auto
termination
  by (relation "measure length") (auto simp: length_dropWhile_le less_Suc_eq_le)

section \<open>Cells and the cell normalizer\<close>

text \<open>
  A cell is missing (\<open>None\<close>, \<open>NaN\<close>, \<open>pd.NA\<close>, \<open>NaT\<close>: whatever \<open>isna\<close> accepts),
  a \<open>str\<close>, a number or a timestamp.  Numbers and timestamps are kept abstract.
\<close>

datatype ('n, 'd) cell = Missing | Text string | Number 'n | DateTime 'd

definition isna :: "('n, 'd) cell \<Rightarrow> bool" where
  "isna v = (case v of Missing \<Rightarrow> True | _ \<Rightarrow> False)"

definition notna :: "('n, 'd) cell \<Rightarrow> bool" where
  "notna v = (\<not> isna v)"

definition sentinels :: "string list" where
  "sentinels = [''null'', ''unknown'', ''error'']"

definition clean_cell :: "('n, 'd) cell \<Rightarrow> ('n, 'd) cell" where
  "clean_cell cell =
     (case cell of
        Text s \<Rightarrow>
          (let s1 = strip s;
               s2 = sub_whitespace s1
           in if lower s2 \<in> set sentinels then Missing else Text s2)
      | _ \<Rightarrow> cell)"

section \<open>Data frames\<close>

text \<open>
  A pandas column has a dtype and a sequence of cells; a frame has an index (only its
  length matters here) and an ordered list of labelled columns.  Labels are \<open>str\<close>
  and may repeat.  \<open>object\<close> is the dtype of text and of mixed columns; the integer,
  floating and boolean dtypes are one \<open>NumericDtype\<close>.
\<close>

datatype dtype = ObjectDtype | NumericDtype | DatetimeDtype

record ('n, 'd) series =
  col_name :: string
  col_dtype :: dtype
  col_values :: "('n, 'd) cell list"

record ('n, 'd) dataframe =
  nrows :: nat
  columns :: "('n, 'd) series list"

datatype error = KeyError | ValueError | TypeError

definition column_names :: "('n, 'd) dataframe \<Rightarrow> string list" where
  "column_names df = map col_name (columns df)"

definition well_formed :: "('n, 'd) dataframe \<Rightarrow> bool" where
  \<comment> \<open>every column is as long as the index\<close>
  "well_formed df = list_all (\<lambda>c. length (col_values c) = nrows df) (columns df)"

subsection \<open>Masks and positional selection\<close>

definition duplicated :: "'a list \<Rightarrow> bool list" where
  \<comment> \<open>\<open>.duplicated()\<close> with \<open>keep='first'\<close>: an entry is flagged when an equal one
      stands before it\<close>
  "duplicated xs = map (\<lambda>i. xs ! i \<in> set (take i xs)) [0..<length xs]"

definition nonzero :: "bool list \<Rightarrow> nat list" where
  \<comment> \<open>the positions a boolean mask selects\<close>
  "nonzero flags = filter (\<lambda>i. flags ! i) [0..<length flags]"

definition take_columns :: "nat list \<Rightarrow> ('n, 'd) dataframe \<Rightarrow> ('n, 'd) dataframe" where
  "take_columns idx df = df\<lparr>columns := map (\<lambda>j. columns df ! j) idx\<rparr>"

definition take_rows :: "nat list \<Rightarrow> ('n, 'd) dataframe \<Rightarrow> ('n, 'd) dataframe" where
  \<comment> \<open>the rows at the positions \<open>idx\<close>; the positions come from a mask over the index,
      so they lie within every column of a well-formed frame\<close>
  "take_rows idx df =
     df\<lparr>nrows := length idx,
        columns := map (\<lambda>c. c\<lparr>col_values := map (\<lambda>i. col_values c ! i) idx\<rparr>) (columns df)\<rparr>"

definition row :: "('n, 'd) dataframe \<Rightarrow> nat \<Rightarrow> ('n, 'd) cell list" where
  "row df i = map (\<lambda>c. col_values c ! i) (columns df)"

definition rows :: "('n, 'd) dataframe \<Rightarrow> ('n, 'd) cell list list" where
  "rows df = map (row df) [0..<nrows df]"

subsection \<open>Column names (source lines 28 to 32)\<close>

definition rename_columns :: "(string \<Rightarrow> string) \<Rightarrow> ('n, 'd) dataframe \<Rightarrow> ('n, 'd) dataframe" where
  \<comment> \<open>\<open>df.columns = df.columns.str.f()\<close>\<close>
  "rename_columns f df = df\<lparr>columns := map (\<lambda>c. c\<lparr>col_name := f (col_name c)\<rparr>) (columns df)\<rparr>"

definition drop_duplicate_columns :: "('n, 'd) dataframe \<Rightarrow> ('n, 'd) dataframe" where
  \<comment> \<open>\<open>df.loc[:, ~df.columns.duplicated()]\<close>\<close>
  "drop_duplicate_columns df =
     take_columns (nonzero (map Not (duplicated (column_names df)))) df"

subsection \<open>Cell values (source line 45)\<close>

definition applymap ::
  "(('n, 'd) cell \<Rightarrow> ('n, 'd) cell) \<Rightarrow> ('n, 'd) dataframe \<Rightarrow> ('n, 'd) dataframe" where
  \<comment> \<open>every cell of every column is visited; \<open>clean_cell\<close> turns a \<open>str\<close> into a
      \<open>str\<close> or \<open>pd.NA\<close> and returns anything else as it is, so the columns are rebuilt
      with the dtype they had\<close>
  "applymap f df = df\<lparr>columns := map (\<lambda>c. c\<lparr>col_values := map f (col_values c)\<rparr>) (columns df)\<rparr>"

subsection \<open>Type conversions (source lines 49 to 58)\<close>

text \<open>
  What pandas recognises as a date or as a number is not part of the repository: the two
  parsers are parameters.  \<open>to_dt vs v\<close> gives the timestamp of the non-missing cell
  \<open>v\<close> of a column whose cells are \<open>vs\<close>, or \<open>None\<close> when \<open>v\<close> cannot be parsed
  (\<open>pd.to_datetime\<close> infers one format for a column from its first non-missing cell, so
  what parses may depend on the column).  \<open>to_num v\<close> gives the number a non-missing
  cell stands for, \<open>NaN\<close> when the cell parses to the floating not-a-number (which
  \<open>isna\<close> accepts), or \<open>ParseError\<close>.
\<close>

datatype 'n parsed = ParseError | NaN | Value 'n

definition to_datetime_coerce ::
  "(('n, 'd) cell \<Rightarrow> 'd option) \<Rightarrow> ('n, 'd) cell list \<Rightarrow> ('n, 'd) cell list" where
  \<comment> \<open>\<open>pd.to_datetime(s, errors='coerce')\<close>: a cell that does not parse becomes \<open>NaT\<close>\<close>
  "to_datetime_coerce to_dt vs =
     map (\<lambda>v. if isna v then Missing
              else (case to_dt v of Some d \<Rightarrow> DateTime d | None \<Rightarrow> Missing)) vs"

definition numeric_value :: "(('n, 'd) cell \<Rightarrow> 'n parsed) \<Rightarrow> ('n, 'd) cell \<Rightarrow> ('n, 'd) cell" where
  "numeric_value to_num v =
     (if isna v then Missing
      else (case to_num v of Value x \<Rightarrow> Number x | _ \<Rightarrow> Missing))"

definition to_numeric_ignore ::
  "(('n, 'd) cell \<Rightarrow> 'n parsed) \<Rightarrow> ('n, 'd) series \<Rightarrow> ('n, 'd) series" where
  \<comment> \<open>\<open>pd.to_numeric(s, errors='ignore')\<close>: one cell that does not parse and the input
      is returned as it is\<close>
  "to_numeric_ignore to_num s =
     (if list_ex (\<lambda>v. notna v \<and> to_num v = ParseError) (col_values s) then s
      else s\<lparr>col_dtype := NumericDtype, col_values := map (numeric_value to_num) (col_values s)\<rparr>)"

definition select_dtypes_object :: "('n, 'd) dataframe \<Rightarrow> string list" where
  \<comment> \<open>\<open>df.select_dtypes(include=['object']).columns\<close>\<close>
  "select_dtypes_object df = map col_name (filter (\<lambda>c. col_dtype c = ObjectDtype) (columns df))"

definition getitem :: "('n, 'd) dataframe \<Rightarrow> string \<Rightarrow> ('n, 'd) series list" where
  \<comment> \<open>\<open>df[col]\<close>: the columns labelled \<open>col\<close>; a Series when there is exactly one, a
      DataFrame when the label repeats\<close>
  "getitem df col = filter (\<lambda>c. col_name c = col) (columns df)"

definition setitem ::
  "('n, 'd) dataframe \<Rightarrow> string \<Rightarrow> dtype \<Rightarrow> ('n, 'd) cell list \<Rightarrow> ('n, 'd) dataframe" where
  \<comment> \<open>\<open>df[col] = s\<close>\<close>
  "setitem df col dt vs =
     df\<lparr>columns := map (\<lambda>c. if col_name c = col then c\<lparr>col_dtype := dt, col_values := vs\<rparr> else c)
                       (columns df)\<rparr>"

definition datetime_body ::
  "(('n, 'd) cell list \<Rightarrow> ('n, 'd) cell \<Rightarrow> 'd option) \<Rightarrow> string \<Rightarrow> ('n, 'd) dataframe \<Rightarrow> error + ('n, 'd) dataframe" where
  \<comment> \<open>lines 50 to 54; \<open>pd.to_datetime\<close> of a DataFrame that has no year, month and day
      columns, or has repeated labels, raises \<open>ValueError\<close>.  The quotient of the two
      counts is exact here; the source compares its double with the double \<open>0.8\<close>, which
      gives the same answer for every column that fits in memory\<close>
  "datetime_body to_dt col df =
     (case getitem df col of
        [] \<Rightarrow> Inl KeyError
      | [s] \<Rightarrow>
          (let converted = to_datetime_coerce (to_dt (col_values s)) (col_values s);
               non_null_original = length (filter notna (col_values s));
               non_null_converted = length (filter notna converted)
           in if non_null_original > 0 \<and>
                 (of_nat non_null_converted / of_nat non_null_original :: rat) \<ge> 8 / 10
              then Inr (setitem df col DatetimeDtype converted)
              else Inr df)
      | _ \<Rightarrow> Inl ValueError)"

definition numeric_body ::
  "(('n, 'd) cell \<Rightarrow> 'n parsed) \<Rightarrow> string \<Rightarrow> ('n, 'd) dataframe \<Rightarrow> error + ('n, 'd) dataframe" where
  \<comment> \<open>line 58; \<open>pd.to_numeric\<close> of a DataFrame raises \<open>TypeError\<close>\<close>
  "numeric_body to_num col df =
     (case getitem df col of
        [] \<Rightarrow> Inl KeyError
      | [s] \<Rightarrow> (let r = to_numeric_ignore to_num s in Inr (setitem df col (col_dtype r) (col_values r)))
      | _ \<Rightarrow> Inl TypeError)"

fun for_each :: "('k \<Rightarrow> 's \<Rightarrow> error + 's) \<Rightarrow> 'k list \<Rightarrow> 's \<Rightarrow> error + 's" where
  "for_each body [] s = Inr s"
| "for_each body (k # ks) s =
     (case body k s of Inl e \<Rightarrow> Inl e | Inr s' \<Rightarrow> for_each body ks s')"

definition convert_dates ::
  "(('n, 'd) cell list \<Rightarrow> ('n, 'd) cell \<Rightarrow> 'd option) \<Rightarrow> ('n, 'd) dataframe \<Rightarrow> error + ('n, 'd) dataframe" where
  \<comment> \<open>the loop of lines 49 to 54; the labels are read once, before the first iteration\<close>
  "convert_dates to_dt df = for_each (datetime_body to_dt) (select_dtypes_object df) df"

definition convert_numbers ::
  "(('n, 'd) cell \<Rightarrow> 'n parsed) \<Rightarrow> ('n, 'd) dataframe \<Rightarrow> error + ('n, 'd) dataframe" where
  \<comment> \<open>the loop of lines 57 and 58\<close>
  "convert_numbers to_num df = for_each (numeric_body to_num) (select_dtypes_object df) df"

subsection \<open>Cleanup (source lines 62 to 66)\<close>

definition dropna_columns :: "('n, 'd) dataframe \<Rightarrow> ('n, 'd) dataframe" where
  \<comment> \<open>\<open>df.dropna(axis=1, how='all')\<close>: a column stays when one of its cells is not
      missing\<close>
  "dropna_columns df = df\<lparr>columns := filter (\<lambda>c. list_ex notna (col_values c)) (columns df)\<rparr>"

definition drop_duplicates :: "('n, 'd) dataframe \<Rightarrow> ('n, 'd) dataframe" where
  \<comment> \<open>an empty frame (no row or no column) is returned as it is; otherwise the rows
      flagged by \<open>duplicated\<close> are removed\<close>
  "drop_duplicates df =
     (if nrows df = 0 \<or> columns df = [] then df
      else take_rows (nonzero (map Not (duplicated (rows df)))) df)"

definition dropna_rows :: "('n, 'd) dataframe \<Rightarrow> ('n, 'd) dataframe" where
  \<comment> \<open>\<open>df.dropna()\<close>: a row stays when none of its cells is missing\<close>
  "dropna_rows df = take_rows (nonzero (map (\<lambda>r. list_all notna r) (rows df))) df"

subsection \<open>The pipeline\<close>

definition clean_names :: "('n, 'd) dataframe \<Rightarrow> ('n, 'd) dataframe" where
  \<comment> \<open>lines 30 and 32, on the frame whose labels line 28 has stripped\<close>
  "clean_names df = rename_columns sub_special (drop_duplicate_columns df)"

definition convert_types ::
  "(('n, 'd) cell list \<Rightarrow> ('n, 'd) cell \<Rightarrow> 'd option) \<Rightarrow> (('n, 'd) cell \<Rightarrow> 'n parsed) \<Rightarrow>
   ('n, 'd) dataframe \<Rightarrow> error + ('n, 'd) dataframe" where
  "convert_types to_dt to_num df =
     (case convert_dates to_dt df of
        Inl e \<Rightarrow> Inl e
      | Inr df1 \<Rightarrow> convert_numbers to_num df1)"

definition cleanup :: "('n, 'd) dataframe \<Rightarrow> ('n, 'd) dataframe" where
  "cleanup df = dropna_rows (drop_duplicates (dropna_columns df))"

definition clean_dataframe ::
  "(('n, 'd) cell list \<Rightarrow> ('n, 'd) cell \<Rightarrow> 'd option) \<Rightarrow> (('n, 'd) cell \<Rightarrow> 'n parsed) \<Rightarrow>
   ('n, 'd) dataframe \<Rightarrow> ('n, 'd) dataframe \<times> (error + ('n, 'd) dataframe)" where
  \<comment> \<open>The first component is the caller's frame after the call: line 28 assigns to
      \<open>df.columns\<close> of the object that was passed in, and line 30 rebinds \<open>df\<close> to a
      new frame, so nothing after it reaches the caller's object.  The second component
      is the returned frame, or the exception that ended the call.\<close>
  "clean_dataframe to_dt to_num df0 =
     (let caller = rename_columns strip df0;
          df = clean_names caller;
          df = applymap clean_cell df
      in (caller,
          case convert_types to_dt to_num df of
            Inl e \<Rightarrow> Inl e
          | Inr df \<Rightarrow> Inr (cleanup df)))"

definition clean :: 
  "(('n, 'd) cell list \<Rightarrow> ('n, 'd) cell \<Rightarrow> 'd option) \<Rightarrow> (('n, 'd) cell \<Rightarrow> 'n parsed) \<Rightarrow>
   ('n, 'd) dataframe \<Rightarrow> error + ('n, 'd) dataframe" where
  \<comment> \<open>what the caller gets back\<close>
  "clean to_dt to_num df0 = snd (clean_dataframe to_dt to_num df0)"

section \<open>Two concrete parsers for the examples\<close>

text \<open>
  The examples below run the pipeline with parsers that recognise ISO dates
  (\<open>YYYY-MM-DD\<close>) and unsigned decimal integers, two formats pandas accepts.  The
  timestamp of an ISO date is represented by its text.  As in pandas,
  \<open>to_numeric\<close> reads the empty string as \<open>NaN\<close>.
\<close>

definition isdigit :: "char \<Rightarrow> bool" where
  "isdigit c = (let n = (of_char c :: nat) in 48 \<le> n \<and> n \<le> 57)"

definition is_iso_date :: "string \<Rightarrow> bool" where
  "is_iso_date s =
     (length s = 10 \<and> list_all isdigit (take 4 s) \<and> s ! 4 = CHR ''-'' \<and>
      list_all isdigit (take 2 (drop 5 s)) \<and> s ! 7 = CHR ''-'' \<and>
      list_all isdigit (drop 8 s))"

fun iso_dates :: "(int, string) cell list \<Rightarrow> (int, string) cell \<Rightarrow> string option" where
  "iso_dates vs (Text s) = (if is_iso_date s then Some s else None)"
| "iso_dates vs (DateTime d) = Some d"
| "iso_dates vs _ = None"

definition decimal_value :: "string \<Rightarrow> int" where
  "decimal_value s = foldl (\<lambda>a c. 10 * a + (int (of_char c) - 48)) 0 s"

fun decimals :: "(int, string) cell \<Rightarrow> int parsed" where
  "decimals (Text s) =
     (if s = [] then NaN else if list_all isdigit s then Value (decimal_value s) else ParseError)"
| "decimals (Number x) = Value x"
| "decimals _ = ParseError"

definition frame :: "nat \<Rightarrow> (string \<times> dtype \<times> (int, string) cell list) list \<Rightarrow> (int, string) dataframe" where
  \<comment> \<open>shorthand for writing a frame down\<close>
  "frame n cs =
     \<lparr>nrows = n,
      columns = map (\<lambda>(k, dt, vs). \<lparr>col_name = k, col_dtype = dt, col_values = vs\<rparr>) cs\<rparr>"

section \<open>The cell normalizer as the specification words it\<close>

text \<open>
  The specification describes the normalized text of a cell: the whitespace-separated
  words of the cell, joined by single spaces; and it compares that text with the
  sentinels without regard to case.
\<close>

function split_whitespace :: "string \<Rightarrow> string list" where
  "split_whitespace s =
     (let t = dropWhile isspace s
      in if t = [] then []
         else takeWhile (\<lambda>c. \<not> isspace c) t # split_whitespace (dropWhile (\<lambda>c. \<not> isspace c) t))"
  by pat_completeness auto
termination
proof (relation "measure length")
  show "wf (measure length)" by simp
next
  fix s t :: string
  assume t: "t = dropWhile isspace s" and ne: "t \<noteq> []"
  obtain c cs where tc: "t = c # cs" using ne by (cases t) auto
  have "dropWhile isspace s \<noteq> []" using t ne by simp
  from hd_dropWhile [OF this] have "\<not> isspace c" using t tc by (metis list.sel(1))
  then have "length (dropWhile (\<lambda>c. \<not> isspace c) t) \<le> length cs"
    by (simp add: tc length_dropWhile_le)
  moreover have "length t \<le> length s" by (simp add: t length_dropWhile_le)
  ultimately show "(dropWhile (\<lambda>c. \<not> isspace c) t, s) \<in> measure length"
    by (simp add: tc)
qed

fun join_space :: "string list \<Rightarrow> string" where
  "join_space [] = []"
| "join_space [w] = w"
| "join_space (w # ws) = w @ CHR '' '' # join_space ws"

definition normalized_text :: "string \<Rightarrow> string" where
  "normalized_text s = join_space (split_whitespace s)"

definition equals_ignoring_case :: "string \<Rightarrow> string \<Rightarrow> bool" where
  "equals_ignoring_case a b = (lower a = lower b)"

section \<open>Type inference and the invariants as the specification words them\<close>

text \<open>
  The specification describes type inference column by column, with the two counts
  \<open>nonMissingOriginal\<close> and \<open>parsedSuccessfully\<close> and the threshold of four fifths, and
  the numeric step as all or nothing.  These definitions follow its words; the theorems
  below compare them with the loops of the source.
\<close>

definition non_missing_original :: "('n, 'd) series \<Rightarrow> nat" where
  "non_missing_original c = length (filter notna (col_values c))"

definition parsed_successfully :: "(('n, 'd) cell \<Rightarrow> 'd option) \<Rightarrow> ('n, 'd) series \<Rightarrow> nat" where
  \<comment> \<open>the non-missing cells that the parser of the column accepts\<close>
  "parsed_successfully parse c = length (filter (\<lambda>v. notna v \<and> parse v \<noteq> None) (col_values c))"

definition parsed_date :: "(('n, 'd) cell \<Rightarrow> 'd option) \<Rightarrow> ('n, 'd) cell \<Rightarrow> ('n, 'd) cell" where
  \<comment> \<open>the parsed value of a cell; a cell that fails to parse becomes missing\<close>
  "parsed_date to_dt v =
     (case v of Missing \<Rightarrow> Missing
      | _ \<Rightarrow> (case to_dt v of Some d \<Rightarrow> DateTime d | None \<Rightarrow> Missing))"

definition date_inference ::
  "(('n, 'd) cell list \<Rightarrow> ('n, 'd) cell \<Rightarrow> 'd option) \<Rightarrow> ('n, 'd) series \<Rightarrow> ('n, 'd) series" where
  \<comment> \<open>\<open>parsedSuccessfully / nonMissingOriginal \<ge> 0.8\<close>, as four fifths\<close>
  "date_inference to_dt c =
     (let parse = to_dt (col_values c)
      in if 0 < non_missing_original c \<and>
            4 * non_missing_original c \<le> 5 * parsed_successfully parse c
         then c\<lparr>col_dtype := DatetimeDtype, col_values := map (parsed_date parse) (col_values c)\<rparr>
         else c)"

definition numeric_inference :: "(('n, 'd) cell \<Rightarrow> 'n parsed) \<Rightarrow> ('n, 'd) series \<Rightarrow> ('n, 'd) series" where
  "numeric_inference to_num c =
     (if list_all (\<lambda>v. isna v \<or> to_num v \<noteq> ParseError) (col_values c)
      then c\<lparr>col_dtype := NumericDtype, col_values := map (numeric_value to_num) (col_values c)\<rparr>
      else c)"

definition map_columns ::
  "(('n, 'd) series \<Rightarrow> ('n, 'd) series) \<Rightarrow> ('n, 'd) dataframe \<Rightarrow> ('n, 'd) dataframe" where
  "map_columns g df = df\<lparr>columns := map g (columns df)\<rparr>"

definition matches_name_pattern :: "string \<Rightarrow> bool" where
  \<comment> \<open>the pattern \<open>^[A-Za-z0-9_]+$\<close>\<close>
  "matches_name_pattern n = (n \<noteq> [] \<and> list_all allowed n)"

definition entirely_missing :: "('n, 'd) series \<Rightarrow> bool" where
  \<comment> \<open>all cells of the column are missing; true of a column without cells, as for
      \<open>dropna(how='all')\<close>\<close>
  "entirely_missing c = list_all isna (col_values c)"

section \<open>The frame that reaches type inference\<close>

definition prepared :: "('n, 'd) dataframe \<Rightarrow> ('n, 'd) dataframe" where
  \<comment> \<open>the frame that the type conversions receive: lines 28 to 45 on the returned frame\<close>
  "prepared t = applymap clean_cell (clean_names (rename_columns strip t))"

definition labels_resolve :: "('n, 'd) dataframe \<Rightarrow> bool" where
  \<comment> \<open>every label of a text column is carried by that column alone, so that \<open>df[col]\<close>
      is a Series in both loops\<close>
  "labels_resolve df = list_all (\<lambda>k. length (getitem df k) = 1) (select_dtypes_object df)"

section \<open>Properties of the string primitives\<close>

declare split_whitespace.simps [simp del]

lemma sub_whitespace_word:
  "\<forall>c\<in>set w. \<not> isspace c \<Longrightarrow> sub_whitespace (w @ r) = w @ sub_whitespace r"
  by (induction w) auto

lemma rstrip_append:
  "rstrip (w @ r) = (if \<forall>x\<in>set r. isspace x then rstrip w else w @ rstrip r)"
  by (simp add: rstrip_def dropWhile_append)

lemma rstrip_word: "\<forall>c\<in>set w. \<not> isspace c \<Longrightarrow> rstrip w = w"
  by (cases w rule: rev_cases) (auto simp: rstrip_def)

lemma rstrip_Cons:
  "rstrip (x # xs) = (if \<forall>y\<in>set xs. isspace y then (if isspace x then [] else [x]) else x # rstrip xs)"
  using rstrip_append [of "[x]" xs] by (simp add: rstrip_def)

lemma rstrip_Nil [simp]: "rstrip [] = []"
  by (simp add: rstrip_def)

lemma rstrip_eq_Nil: "rstrip s = [] \<longleftrightarrow> (\<forall>x\<in>set s. isspace x)"
  by (induction s) (auto simp: rstrip_Cons)

lemma lstrip_rstrip: "lstrip (rstrip s) = rstrip (lstrip s)"
proof (induction s)
  case Nil
  then show ?case by (simp add: lstrip_def)
next
  case (Cons x xs)
  show ?case
  proof (cases "isspace x")
    case True
    then show ?thesis using Cons
      by (auto simp: rstrip_Cons lstrip_def rstrip_eq_Nil dropWhile_eq_Nil_conv[symmetric] simp del: dropWhile_eq_Nil_conv)
  next
    case False
    then show ?thesis by (auto simp: rstrip_Cons lstrip_def)
  qed
qed

lemma sub_whitespace_space:
  "x \<noteq> [] \<Longrightarrow> isspace (hd x) \<Longrightarrow> sub_whitespace x = CHR '' '' # sub_whitespace (lstrip x)"
  by (cases x) (auto simp: lstrip_def)

lemma join_space_Cons: "ws \<noteq> [] \<Longrightarrow> join_space (w # ws) = w @ CHR '' '' # join_space ws"
  by (cases ws) auto

lemma split_whitespace_Nil: "split_whitespace s = [] \<longleftrightarrow> (\<forall>x\<in>set s. isspace x)"
  by (subst split_whitespace.simps) (auto simp: Let_def)

lemma normalize_words: "sub_whitespace (strip s) = join_space (split_whitespace s)"
proof (induction s rule: split_whitespace.induct)
  case (1 s)
  define t where "t = dropWhile isspace s"
  show ?case
  proof (cases "t = []")
    case True
    then have "dropWhile isspace s = []" by (simp add: t_def)
    then show ?thesis
      by (subst split_whitespace.simps) (simp add: strip_def lstrip_def Let_def del: dropWhile_eq_Nil_conv)
  next
    case False
    define w where "w = takeWhile (\<lambda>c. \<not> isspace c) t"
    define r where "r = dropWhile (\<lambda>c. \<not> isspace c) t"
    have t: "t = w @ r" by (simp add: w_def r_def)
    have w: "\<forall>c\<in>set w. \<not> isspace c" unfolding w_def by (auto dest: set_takeWhileD)
    have IH: "sub_whitespace (strip r) = join_space (split_whitespace r)"
      using 1 [OF t_def False] by (simp add: r_def)
    have sw: "split_whitespace s = w # split_whitespace r"
      using False by (subst split_whitespace.simps) (simp add: t_def [symmetric] w_def r_def Let_def)
    show ?thesis
    proof (cases "\<forall>x\<in>set r. isspace x")
      case True
      then have "split_whitespace r = []" by (simp add: split_whitespace_Nil)
      moreover have "strip s = w"
        using True w by (simp add: strip_def lstrip_def t_def [symmetric] t rstrip_append rstrip_word)
      moreover have "sub_whitespace w = w"
        using sub_whitespace_word [OF w, of "[]"] by simp
      ultimately show ?thesis by (simp add: sw)
    next
      case nsp: False
      then have rne: "r \<noteq> []" by auto
      have hd: "isspace (hd r)"
        using rne unfolding r_def by (metis hd_dropWhile)
      have rs: "rstrip r \<noteq> []" using nsp by (simp add: rstrip_eq_Nil)
      have hdrs: "hd (rstrip r) = hd r"
        using rne nsp by (cases r) (auto simp: rstrip_Cons)
      have "strip s = w @ rstrip r"
        using nsp by (auto simp: strip_def lstrip_def t_def [symmetric] t rstrip_append)
      then have "sub_whitespace (strip s) = w @ sub_whitespace (rstrip r)"
        by (simp add: sub_whitespace_word [OF w])
      also have "sub_whitespace (rstrip r) = CHR '' '' # sub_whitespace (lstrip (rstrip r))"
        using rs hd hdrs by (simp add: sub_whitespace_space)
      also have "lstrip (rstrip r) = strip r" by (simp add: lstrip_rstrip strip_def)
      finally have "sub_whitespace (strip s) = w @ CHR '' '' # join_space (split_whitespace r)"
        by (simp add: IH)
      moreover have "split_whitespace r \<noteq> []" using nsp by (simp add: split_whitespace_Nil)
      ultimately show ?thesis by (simp add: sw join_space_Cons)
    qed
  qed
qed


lemma lower_sentinels: "list_ex (equals_ignoring_case t) sentinels \<longleftrightarrow> lower t \<in> set sentinels"
  by (simp add: sentinels_def equals_ignoring_case_def lower_def lower_char_def) 

lemma clean_cell_Text:
  "clean_cell (Text s) =
     (if list_ex (equals_ignoring_case (normalized_text s)) sentinels then Missing
      else Text (normalized_text s))"
  by (simp add: clean_cell_def lower_sentinels normalized_text_def normalize_words Let_def)



subsection \<open>Column names\<close>

lemma allowed_not_space: "allowed c \<Longrightarrow> \<not> isspace c"
  by (auto simp: allowed_def isspace_def Let_def)

lemma allowed_underscore: "allowed CHR ''_''"
  by (simp add: allowed_def)

lemma sub_special_allowed: "list_all allowed (sub_special s)"
  by (induction s rule: sub_special.induct) (auto simp: allowed_underscore)

lemma sub_special_id: "list_all allowed s \<Longrightarrow> sub_special s = s"
  by (induction s) auto

lemma sub_special_Nil: "sub_special s = [] \<longleftrightarrow> s = []"
  by (cases s) auto

lemma lstrip_id: "s = [] \<or> \<not> isspace (hd s) \<Longrightarrow> lstrip s = s"
  by (cases s) (auto simp: lstrip_def)

lemma rstrip_id: "s = [] \<or> \<not> isspace (last s) \<Longrightarrow> rstrip s = s"
  by (cases s rule: rev_cases) (auto simp: rstrip_def)

lemma strip_allowed: "list_all allowed s \<Longrightarrow> strip s = s"
proof -
  assume a: "list_all allowed s"
  have "s = [] \<or> \<not> isspace (hd s)" using a by (cases s) (auto simp: allowed_not_space)
  moreover have "s = [] \<or> \<not> isspace (last s)"
    using a by (cases s rule: rev_cases) (auto simp: allowed_not_space)
  ultimately show ?thesis by (simp add: strip_def lstrip_id rstrip_id)
qed

subsection \<open>Words and the normalized text\<close>

lemma split_whitespace_space: "isspace c \<Longrightarrow> split_whitespace (c # s) = split_whitespace s"
  by (subst split_whitespace.simps, subst (2) split_whitespace.simps) simp

lemma split_whitespace_word:
  assumes "w \<noteq> []" "\<forall>c\<in>set w. \<not> isspace c" "r = [] \<or> isspace (hd r)"
  shows "split_whitespace (w @ r) = w # split_whitespace r"
proof -
  have d: "dropWhile isspace (w @ r) = w @ r" using assms by (cases w) auto
  have t: "takeWhile (\<lambda>c. \<not> isspace c) (w @ r) = w"
    using assms by (cases r) (auto simp: takeWhile_append2 takeWhile_tail)
  have "dropWhile (\<lambda>c. \<not> isspace c) (w @ r) = r"
    using assms by (cases r) (auto simp: dropWhile_append)
  then show ?thesis using assms d t by (subst split_whitespace.simps) (simp add: Let_def)
qed

lemma split_whitespace_join:
  "\<forall>w\<in>set ws. w \<noteq> [] \<and> (\<forall>c\<in>set w. \<not> isspace c) \<Longrightarrow> split_whitespace (join_space ws) = ws"
proof (induction ws rule: join_space.induct)
  case 1
  then show ?case by (simp add: split_whitespace_Nil)
next
  case (2 w)
  then show ?case using split_whitespace_word [of w "[]"] by (simp add: split_whitespace_Nil)
next
  case (3 w v vs)
  have "split_whitespace (w @ CHR '' '' # join_space (v # vs)) = w # split_whitespace (CHR '' '' # join_space (v # vs))"
    using 3 by (intro split_whitespace_word) (auto simp: isspace_def)
  also have "split_whitespace (CHR '' '' # join_space (v # vs)) = split_whitespace (join_space (v # vs))"
    by (rule split_whitespace_space) (simp add: isspace_def)
  finally show ?case using 3 by simp
qed

lemma split_whitespace_words:
  "w \<in> set (split_whitespace s) \<Longrightarrow> w \<noteq> [] \<and> (\<forall>c\<in>set w. \<not> isspace c)"
proof (induction s arbitrary: w rule: split_whitespace.induct)
  case (1 s)
  define t where "t = dropWhile isspace s"
  show ?case
  proof (cases "t = []")
    case True
    then have "split_whitespace s = []" by (subst split_whitespace.simps) (simp add: t_def Let_def del: dropWhile_eq_Nil_conv)
    then show ?thesis using 1(2) by simp
  next
    case False
    then have sw: "split_whitespace s = takeWhile (\<lambda>c. \<not> isspace c) t # split_whitespace (dropWhile (\<lambda>c. \<not> isspace c) t)"
      by (subst split_whitespace.simps) (simp add: t_def [symmetric] Let_def)
    have "\<not> isspace (hd t)" using False unfolding t_def by (rule hd_dropWhile)
    then have "takeWhile (\<lambda>c. \<not> isspace c) t \<noteq> []" using False by (cases t) auto
    moreover have "\<forall>c\<in>set (takeWhile (\<lambda>c. \<not> isspace c) t). \<not> isspace c" by (auto dest: set_takeWhileD)
    moreover have "w \<in> set (split_whitespace (dropWhile (\<lambda>c. \<not> isspace c) t)) \<Longrightarrow> w \<noteq> [] \<and> (\<forall>c\<in>set w. \<not> isspace c)"
      by (rule 1(1) [OF t_def False])
    moreover have "w = takeWhile (\<lambda>c. \<not> isspace c) t \<or> w \<in> set (split_whitespace (dropWhile (\<lambda>c. \<not> isspace c) t))"
      using 1(2) by (simp only: sw set_simps insert_iff)
    ultimately show ?thesis by metis
  qed
qed

lemma normalized_text_idem: "normalized_text (normalized_text s) = normalized_text s"
  by (simp add: normalized_text_def split_whitespace_join split_whitespace_words)

lemma clean_cell_idem: "clean_cell (clean_cell v) = clean_cell v"
  by (cases v) (simp_all add: clean_cell_Text normalized_text_idem, simp_all add: clean_cell_def)

section \<open>Properties of masks\<close>

lemma set_nonzero: "set (nonzero flags) = {i. i < length flags \<and> flags ! i}"
  by (auto simp: nonzero_def)

lemma nonzero_map: "nonzero (map P xs) = filter (\<lambda>i. P (xs ! i)) [0..<length xs]"
  by (auto simp: nonzero_def intro: filter_cong)

lemma take_nonzero_map: "map (\<lambda>i. xs ! i) (nonzero (map P xs)) = filter P xs"
proof -
  have "map (\<lambda>i. xs ! i) (filter (\<lambda>i. P (xs ! i)) [0..<length xs])
        = filter P (map (\<lambda>i. xs ! i) [0..<length xs])"
    by (simp add: filter_map comp_def)
  then show ?thesis by (simp add: nonzero_map map_nth)
qed

lemma nonzero_all: "list_all P xs \<Longrightarrow> nonzero (map P xs) = [0..<length xs]"
  by (simp add: nonzero_map list_all_length)

lemma length_duplicated [simp]: "length (duplicated xs) = length xs"
  by (simp add: duplicated_def)

lemma nonzero_not_duplicated:
  "nonzero (map Not (duplicated xs)) = filter (\<lambda>i. xs ! i \<notin> set (take i xs)) [0..<length xs]"
  by (auto simp: nonzero_def duplicated_def intro: filter_cong)

lemma first_occurrences_distinct:
  "distinct (map (\<lambda>i. xs ! i) (nonzero (map Not (duplicated xs))))"
proof -
  have "inj_on (\<lambda>i. xs ! i) {i. i < length xs \<and> xs ! i \<notin> set (take i xs)}"
  proof (rule inj_onI)
    fix i j
    assume i: "i \<in> {i. i < length xs \<and> xs ! i \<notin> set (take i xs)}"
       and j: "j \<in> {i. i < length xs \<and> xs ! i \<notin> set (take i xs)}"
       and eq: "xs ! i = xs ! j"
    show "i = j"
    proof (rule ccontr)
      assume "i \<noteq> j"
      then consider "i < j" | "j < i" by linarith
      then show False
      proof cases
        case 1
        then have "xs ! i \<in> set (take j xs)" using j by (auto simp: in_set_conv_nth intro!: exI [of _ i])
        then show False using j eq by simp
      next
        case 2
        then have "xs ! j \<in> set (take i xs)" using i by (auto simp: in_set_conv_nth intro!: exI [of _ j])
        then show False using i eq by simp
      qed
    qed
  qed
  then show ?thesis
    by (simp add: nonzero_not_duplicated distinct_map)
qed

lemma first_occurrences_set:
  "set (map (\<lambda>i. xs ! i) (nonzero (map Not (duplicated xs)))) \<subseteq> set xs"
  by (auto simp: nonzero_not_duplicated)

lemma nonzero_distinct:
  "distinct xs \<Longrightarrow> nonzero (map Not (duplicated xs)) = [0..<length xs]"
proof -
  assume d: "distinct xs"
  have "\<And>i. i < length xs \<Longrightarrow> xs ! i \<notin> set (take i xs)"
  proof
    fix i assume i: "i < length xs" and "xs ! i \<in> set (take i xs)"
    then obtain j where "j < i" "xs ! j = xs ! i" by (auto simp: in_set_conv_nth)
    then show False using d i by (auto simp: distinct_conv_nth)
  qed
  then show ?thesis by (simp add: nonzero_not_duplicated)
qed

section \<open>Properties of the frame operations\<close>

subsection \<open>Rows and positional selection\<close>

lemma columns_take_rows:
  "columns (take_rows idx df) = map (\<lambda>c. c\<lparr>col_values := map (\<lambda>i. col_values c ! i) idx\<rparr>) (columns df)"
  by (simp add: take_rows_def)

lemma column_names_take_rows: "column_names (take_rows idx df) = column_names df"
  by (simp add: take_rows_def column_names_def comp_def)

lemma well_formed_take_rows: "well_formed (take_rows idx df)"
  by (simp add: well_formed_def take_rows_def list_all_iff)

lemma length_rows: "length (rows df) = nrows df"
  by (simp add: rows_def)

lemma rows_nth: "i < nrows df \<Longrightarrow> rows df ! i = row df i"
  by (simp add: rows_def)

lemma rows_take_rows: "rows (take_rows idx df) = map (row df) idx"
proof -
  have "rows (take_rows idx df) = map (\<lambda>j. row df (idx ! j)) [0..<length idx]"
    by (simp add: rows_def row_def take_rows_def comp_def)
  also have "\<dots> = map (row df) (map (\<lambda>j. idx ! j) [0..<length idx])"
    by (simp add: comp_def)
  finally show ?thesis by (simp add: map_nth)
qed

lemma take_rows_all:
  assumes "well_formed df"
  shows "take_rows [0..<nrows df] df = df"
proof -
  have "\<And>c. c \<in> set (columns df) \<Longrightarrow> c\<lparr>col_values := map (\<lambda>i. col_values c ! i) [0..<nrows df]\<rparr> = c"
  proof -
    fix c assume "c \<in> set (columns df)"
    then have "length (col_values c) = nrows df" using assms by (simp add: well_formed_def list_all_iff)
    then have "map (\<lambda>i. col_values c ! i) [0..<nrows df] = col_values c"
      using map_nth [of "col_values c"] by simp
    then show "c\<lparr>col_values := map (\<lambda>i. col_values c ! i) [0..<nrows df]\<rparr> = c" by simp
  qed
  then have "map (\<lambda>c. c\<lparr>col_values := map (\<lambda>i. col_values c ! i) [0..<nrows df]\<rparr>) (columns df) = columns df"
    by (simp add: map_idI)
  then show ?thesis by (simp add: take_rows_def)
qed

lemma take_rows_mask:
  "rows (take_rows (nonzero (map P (rows df))) df) = filter P (rows df)"
proof -
  have "map (row df) (nonzero (map P (rows df))) = map (\<lambda>i. rows df ! i) (nonzero (map P (rows df)))"
    by (rule map_cong) (auto simp: set_nonzero length_rows rows_nth)
  then show ?thesis by (simp add: rows_take_rows take_nonzero_map)
qed

lemma cell_in_row: "c \<in> set (columns df) \<Longrightarrow> col_values c ! i \<in> set (row df i)"
  by (auto simp: row_def)

subsection \<open>Cleanup\<close>

lemma rows_dropna_rows: "rows (dropna_rows df) = filter (list_all notna) (rows df)"
  by (simp add: dropna_rows_def take_rows_mask)

lemma dropna_rows_notna:
  assumes "c \<in> set (columns (dropna_rows df))"
  shows "list_all notna (col_values c)"
proof -
  let ?idx = "nonzero (map (list_all notna) (rows df))"
  obtain c0 where c0: "c0 \<in> set (columns df)" and c: "c = c0\<lparr>col_values := map (\<lambda>i. col_values c0 ! i) ?idx\<rparr>"
    using assms by (auto simp: dropna_rows_def columns_take_rows)
  have "notna (col_values c0 ! i)" if "i \<in> set ?idx" for i
  proof -
    from that have "i < nrows df" "list_all notna (rows df ! i)"
      by (auto simp: set_nonzero length_rows)
    then have "list_all notna (row df i)" by (simp add: rows_nth)
    then show ?thesis using cell_in_row [OF c0, of i] by (simp add: list_all_iff)
  qed
  then show ?thesis by (simp add: c list_all_iff)
qed

lemma well_formed_dropna_rows: "well_formed (dropna_rows df)"
  by (simp add: dropna_rows_def well_formed_take_rows)

lemma column_names_dropna_rows: "column_names (dropna_rows df) = column_names df"
  by (simp add: dropna_rows_def column_names_take_rows)

lemma column_names_drop_duplicates: "column_names (drop_duplicates df) = column_names df"
  by (simp add: drop_duplicates_def column_names_take_rows)

lemma rows_drop_duplicates_distinct:
  assumes "columns df \<noteq> []"
  shows "distinct (rows (drop_duplicates df))"
proof (cases "nrows df = 0")
  case True
  then show ?thesis by (simp add: drop_duplicates_def rows_def)
next
  case False
  let ?idx = "nonzero (map Not (duplicated (rows df)))"
  have "map (row df) ?idx = map (\<lambda>i. rows df ! i) ?idx"
    by (rule map_cong) (auto simp: set_nonzero length_rows rows_nth)
  then have "distinct (map (row df) ?idx)" by (simp only: first_occurrences_distinct)
  then show ?thesis using False assms by (simp add: drop_duplicates_def rows_take_rows)
qed

lemma columns_Nil_take_rows: "columns (take_rows idx df) = [] \<longleftrightarrow> columns df = []"
  by (simp add: take_rows_def)

lemma columns_Nil_drop_duplicates: "columns (drop_duplicates df) = [] \<longleftrightarrow> columns df = []"
  by (simp add: drop_duplicates_def columns_Nil_take_rows)

lemma columns_Nil_dropna_rows: "columns (dropna_rows df) = [] \<longleftrightarrow> columns df = []"
  by (simp add: dropna_rows_def columns_Nil_take_rows)

lemma cleanup_notna: "c \<in> set (columns (cleanup df)) \<Longrightarrow> list_all notna (col_values c)"
  by (simp add: cleanup_def dropna_rows_notna)

lemma cleanup_rows_notna: "r \<in> set (rows (cleanup df)) \<Longrightarrow> list_all notna r"
  by (simp add: cleanup_def rows_dropna_rows)

lemma cleanup_distinct_rows: "columns (cleanup df) \<noteq> [] \<Longrightarrow> distinct (rows (cleanup df))"
  by (simp add: cleanup_def rows_dropna_rows columns_Nil_dropna_rows columns_Nil_drop_duplicates
      rows_drop_duplicates_distinct)

lemma cleanup_well_formed: "well_formed (cleanup df)"
  by (simp add: cleanup_def well_formed_dropna_rows)

lemma cleanup_column_names:
  "column_names (cleanup df) = map col_name (filter (\<lambda>c. list_ex notna (col_values c)) (columns df))"
  by (simp add: cleanup_def column_names_dropna_rows column_names_drop_duplicates)
     (simp add: column_names_def dropna_columns_def)

subsection \<open>One iteration of a conversion loop\<close>

lemma to_datetime_coerce_parsed: "to_datetime_coerce to_dt vs = map (parsed_date to_dt) vs"
  by (auto simp: to_datetime_coerce_def parsed_date_def isna_def split: cell.splits)

lemma notna_parsed_date: "notna (parsed_date to_dt v) \<longleftrightarrow> notna v \<and> to_dt v \<noteq> None"
  by (auto simp: parsed_date_def notna_def isna_def split: cell.splits option.splits)

lemma count_parsed:
  "length (filter notna (map (parsed_date to_dt) vs)) = length (filter (\<lambda>v. notna v \<and> to_dt v \<noteq> None) vs)"
  by (simp add: filter_map comp_def notna_parsed_date)

lemma threshold_exact:
  "0 < n \<Longrightarrow> ((of_nat p / of_nat n :: rat) \<ge> 8 / 10) \<longleftrightarrow> 4 * n \<le> 5 * p"
proof -
  assume n: "0 < n"
  have "((of_nat p / of_nat n :: rat) \<ge> 8 / 10) \<longleftrightarrow> (8 * of_nat n \<le> (10 * of_nat p :: rat))"
    using n by (simp add: field_simps)
  also have "\<dots> \<longleftrightarrow> (of_nat (8 * n) \<le> (of_nat (10 * p) :: rat))" by simp
  also have "\<dots> \<longleftrightarrow> 8 * n \<le> 10 * p" by (simp only: of_nat_le_iff)
  finally show ?thesis by auto
qed

lemma getitem_single:
  "getitem df k = [s] \<Longrightarrow> c \<in> set (columns df) \<Longrightarrow> col_name c = k \<Longrightarrow> c = s"
proof -
  assume a: "getitem df k = [s]" "c \<in> set (columns df)" "col_name c = k"
  from a(2,3) have "c \<in> set (getitem df k)" by (simp add: getitem_def)
  then show ?thesis using a(1) by simp
qed

lemma map_single:
  assumes "getitem df k = [s]"
  shows "map (\<lambda>c. if col_name c = k then h s else c) (columns df)
       = map (\<lambda>c. if col_name c = k then h c else c) (columns df)"
  by (rule map_cong) (auto dest: getitem_single [OF assms])

lemma map_single_id:
  assumes "getitem df k = [s]"
  shows "map (\<lambda>c. if col_name c = k then s else c) (columns df) = columns df"
proof (rule map_idI)
  fix c assume c: "c \<in> set (columns df)"
  show "(if col_name c = k then s else c) = c"
    using getitem_single [OF assms c] by simp
qed

lemma datetime_body_single:
  assumes "getitem df k = [s]"
  shows "datetime_body to_dt k df
       = Inr (map_columns (\<lambda>c. if col_name c = k then date_inference to_dt c else c) df)"
proof -
  let ?parse = "to_dt (col_values s)"
  let ?n = "non_missing_original s" and ?p = "parsed_successfully ?parse s"
  have body: "datetime_body to_dt k df =
      (if 0 < ?n \<and> (of_nat ?p / of_nat ?n :: rat) \<ge> 8 / 10
       then Inr (setitem df k DatetimeDtype (map (parsed_date ?parse) (col_values s)))
       else Inr df)"
    by (simp only: datetime_body_def assms list.case Let_def to_datetime_coerce_parsed
        count_parsed non_missing_original_def parsed_successfully_def)
  show ?thesis
  proof (cases "0 < ?n \<and> 4 * ?n \<le> 5 * ?p")
    case True
    then have th: "0 < ?n \<and> (of_nat ?p / of_nat ?n :: rat) \<ge> 8 / 10"
      using threshold_exact [of ?n ?p] by blast
    have di: "date_inference to_dt s
        = s\<lparr>col_dtype := DatetimeDtype, col_values := map (parsed_date ?parse) (col_values s)\<rparr>"
      using True by (simp add: date_inference_def Let_def)
    have "datetime_body to_dt k df = Inr (setitem df k DatetimeDtype (map (parsed_date ?parse) (col_values s)))"
      by (simp only: body th if_True simp_thms)
    also have "setitem df k DatetimeDtype (map (parsed_date ?parse) (col_values s))
        = df\<lparr>columns := map (\<lambda>c. if col_name c = k then date_inference to_dt s else c) (columns df)\<rparr>"
      unfolding setitem_def di
      by (rule arg_cong [where f = "\<lambda>x. df\<lparr>columns := x\<rparr>"], rule map_cong)
         (auto dest: getitem_single [OF assms])
    finally show ?thesis by (simp add: map_columns_def map_single [OF assms])
  next
    case False
    then have th: "\<not> (0 < ?n \<and> (of_nat ?p / of_nat ?n :: rat) \<ge> 8 / 10)"
      using threshold_exact [of ?n ?p] by blast
    have "datetime_body to_dt k df = Inr df"
      by (simp only: body th if_False simp_thms)
    moreover have "date_inference to_dt s = s"
      using False by (auto simp: date_inference_def Let_def)
    then have "map (\<lambda>c. if col_name c = k then date_inference to_dt c else c) (columns df) = columns df"
      by (simp only: map_single [OF assms, of "date_inference to_dt", symmetric] map_single_id [OF assms])
    ultimately show ?thesis by (simp add: map_columns_def)
  qed
qed

lemma to_numeric_ignore_inference: "to_numeric_ignore to_num s = numeric_inference to_num s"
  by (auto simp: to_numeric_ignore_def numeric_inference_def list_ex_iff list_all_iff notna_def)

lemma numeric_body_single:
  assumes "getitem df k = [s]"
  shows "numeric_body to_num k df
       = Inr (map_columns (\<lambda>c. if col_name c = k then numeric_inference to_num c else c) df)"
proof -
  have "setitem df k (col_dtype (numeric_inference to_num s)) (col_values (numeric_inference to_num s))
        = df\<lparr>columns := map (\<lambda>c. if col_name c = k then numeric_inference to_num s else c) (columns df)\<rparr>"
    unfolding setitem_def
    by (rule arg_cong [where f = "\<lambda>x. df\<lparr>columns := x\<rparr>"], rule map_cong)
       (auto simp: numeric_inference_def dest: getitem_single [OF assms])
  then show ?thesis
    by (simp add: numeric_body_def assms to_numeric_ignore_inference map_columns_def map_single [OF assms])
qed

lemma datetime_body_Inr:
  "datetime_body to_dt k df = Inr df' \<Longrightarrow>
   df' = map_columns (\<lambda>c. if col_name c = k then date_inference to_dt c else c) df"
proof -
  assume a: "datetime_body to_dt k df = Inr df'"
  then obtain s where "getitem df k = [s]"
    by (auto simp: datetime_body_def split: list.splits)
  from datetime_body_single [OF this, of to_dt] a show ?thesis by simp
qed

lemma numeric_body_Inr:
  "numeric_body to_num k df = Inr df' \<Longrightarrow>
   df' = map_columns (\<lambda>c. if col_name c = k then numeric_inference to_num c else c) df"
proof -
  assume a: "numeric_body to_num k df = Inr df'"
  then obtain s where "getitem df k = [s]"
    by (auto simp: numeric_body_def split: list.splits)
  from numeric_body_single [OF this, of to_num] a show ?thesis by simp
qed

lemma col_name_date_inference: "col_name (date_inference to_dt c) = col_name c"
  by (simp add: date_inference_def Let_def)

lemma col_name_numeric_inference: "col_name (numeric_inference to_num c) = col_name c"
  by (simp add: numeric_inference_def)

subsection \<open>Column-wise maps and loop invariants\<close>

lemma nrows_map_columns: "nrows (map_columns g df) = nrows df"
  by (simp add: map_columns_def)

lemma columns_map_columns: "columns (map_columns g df) = map g (columns df)"
  by (simp add: map_columns_def)

lemma column_names_map_columns:
  "(\<And>c. col_name (g c) = col_name c) \<Longrightarrow> column_names (map_columns g df) = column_names df"
  by (simp add: map_columns_def column_names_def)

lemma map_columns_map_columns: "map_columns g (map_columns h df) = map_columns (g \<circ> h) df"
  by (simp add: map_columns_def)

lemma map_columns_cong:
  "(\<And>c. c \<in> set (columns df) \<Longrightarrow> g c = h c) \<Longrightarrow> map_columns g df = map_columns h df"
  by (simp add: map_columns_def)

lemma map_columns_id: "(\<And>c. c \<in> set (columns df) \<Longrightarrow> g c = c) \<Longrightarrow> map_columns g df = df"
  by (simp add: map_columns_def map_idI)

lemma for_each_columnwise:
  assumes step: "\<And>k df df'. body k df = Inr df' \<Longrightarrow>
                   df' = map_columns (\<lambda>c. if col_name c = k then g c else c) df"
      and Q: "\<And>c. Q c \<Longrightarrow> Q (g c)"
      and N: "\<And>c. col_name (g c) = col_name c"
  shows "for_each body ks df = Inr df' \<Longrightarrow>
         nrows df' = nrows df \<and> column_names df' = column_names df \<and>
         (list_all Q (columns df) \<longrightarrow> list_all Q (columns df'))"
proof (induction ks arbitrary: df)
  case Nil
  then show ?case by simp
next
  case (Cons k ks)
  from Cons.prems obtain df1 where b: "body k df = Inr df1" and r: "for_each body ks df1 = Inr df'"
    by (auto split: sum.splits)
  have df1: "df1 = map_columns (\<lambda>c. if col_name c = k then g c else c) df" by (rule step [OF b])
  have 1: "nrows df1 = nrows df" by (simp add: df1 nrows_map_columns)
  have 2: "column_names df1 = column_names df"
    unfolding df1 by (rule column_names_map_columns) (simp add: N)
  have 3: "list_all Q (columns df) \<Longrightarrow> list_all Q (columns df1)"
    by (auto simp: df1 columns_map_columns list_all_iff Q)
  from Cons.IH [OF r] 1 2 3 show ?case by auto
qed

lemma getitem_unique:
  assumes "distinct (column_names df)" "k \<in> set (column_names df)"
  shows "\<exists>s. getitem df k = [s]"
proof -
  have "distinct (map col_name cs) \<Longrightarrow> k \<in> set (map col_name cs) \<Longrightarrow>
        \<exists>s. filter (\<lambda>c. col_name c = k) cs = [s]" for cs :: "('a, 'b) series list"
  proof (induction cs)
    case Nil
    then show ?case by simp
  next
    case (Cons c cs)
    show ?case
    proof (cases "col_name c = k")
      case True
      then have "k \<notin> set (map col_name cs)" using Cons.prems(1) by auto
      then have "filter (\<lambda>c. col_name c = k) cs = []" by (auto simp: filter_empty_conv)
      then show ?thesis using True by simp
    next
      case False
      then show ?thesis using Cons by auto
    qed
  qed
  then show ?thesis using assms by (simp add: getitem_def column_names_def)
qed

lemma object_keys_subset: "set (select_dtypes_object df) \<subseteq> set (column_names df)"
  by (auto simp: select_dtypes_object_def column_names_def)

lemma convert_types_preserves:
  assumes "convert_types to_dt to_num df = Inr df'"
      and Qd: "\<And>c. Q c \<Longrightarrow> Q (date_inference to_dt c)"
      and Qn: "\<And>c. Q c \<Longrightarrow> Q (numeric_inference to_num c)"
  shows "nrows df' = nrows df \<and> column_names df' = column_names df \<and>
         (list_all Q (columns df) \<longrightarrow> list_all Q (columns df'))"
proof -
  from assms(1) obtain df1 where d: "convert_dates to_dt df = Inr df1"
    and n: "convert_numbers to_num df1 = Inr df'"
    by (auto simp: convert_types_def split: sum.splits)
  have 1: "nrows df1 = nrows df \<and> column_names df1 = column_names df \<and>
         (list_all Q (columns df) \<longrightarrow> list_all Q (columns df1))"
    using for_each_columnwise [where body = "datetime_body to_dt" and g = "date_inference to_dt" and Q = Q,
          OF datetime_body_Inr Qd col_name_date_inference] d
    unfolding convert_dates_def by blast
  have 2: "nrows df' = nrows df1 \<and> column_names df' = column_names df1 \<and>
         (list_all Q (columns df1) \<longrightarrow> list_all Q (columns df'))"
    using for_each_columnwise [where body = "numeric_body to_num" and g = "numeric_inference to_num" and Q = Q,
          OF numeric_body_Inr Qn col_name_numeric_inference] n
    unfolding convert_numbers_def by blast
  from 1 2 show ?thesis by simp
qed

subsection \<open>Column names through the pipeline\<close>

lemma clean_Inr:
  assumes "clean to_dt to_num t = Inr r"
  obtains u where
    "convert_types to_dt to_num (applymap clean_cell (clean_names (rename_columns strip t))) = Inr u"
    "r = cleanup u"
  using assms by (auto simp: clean_def clean_dataframe_def Let_def split: sum.splits)

lemma column_names_rename: "column_names (rename_columns f df) = map f (column_names df)"
  by (simp add: rename_columns_def column_names_def comp_def)

lemma column_names_applymap: "column_names (applymap f df) = column_names df"
  by (simp add: applymap_def column_names_def comp_def)

lemma column_names_drop_duplicate_columns:
  "column_names (drop_duplicate_columns df)
   = map (\<lambda>i. column_names df ! i) (nonzero (map Not (duplicated (column_names df))))"
proof -
  let ?idx = "nonzero (map Not (duplicated (column_names df)))"
  have "map (\<lambda>j. col_name (columns df ! j)) ?idx = map (\<lambda>i. column_names df ! i) ?idx"
    by (rule map_cong) (auto simp: set_nonzero column_names_def)
  then show ?thesis
    by (simp add: drop_duplicate_columns_def take_columns_def column_names_def comp_def)
qed

lemma column_names_clean_names:
  "column_names (clean_names df)
   = map sub_special (map (\<lambda>i. column_names df ! i) (nonzero (map Not (duplicated (column_names df)))))"
  by (simp add: clean_names_def column_names_rename column_names_drop_duplicate_columns)

lemma convert_types_names:
  assumes "convert_types to_dt to_num df = Inr df'"
  shows "column_names df' = column_names df"
  using convert_types_preserves [OF assms, of "\<lambda>c. True"] by simp

lemma clean_column_names_sub:
  fixes t :: "('n, 'd) dataframe"
  assumes "clean to_dt to_num t = Inr r"
  obtains cs :: "('n, 'd) series list" and ns where "column_names r = map col_name (filter (\<lambda>c. list_ex notna (col_values c)) cs)"
    "map col_name cs = map sub_special ns" "distinct ns" "set ns \<subseteq> set (map strip (column_names t))"
proof -
  from assms obtain u where
    u: "convert_types to_dt to_num (applymap clean_cell (clean_names (rename_columns strip t))) = Inr u"
    and r: "r = cleanup u" by (rule clean_Inr)
  let ?raw = "map strip (column_names t)"
  let ?ns = "map (\<lambda>i. ?raw ! i) (nonzero (map Not (duplicated ?raw)))"
  have "column_names u = map sub_special ?ns"
    using convert_types_names [OF u]
    by (simp add: column_names_applymap column_names_clean_names column_names_rename)
  then have 1: "map col_name (columns u) = map sub_special ?ns" by (simp add: column_names_def)
  have 2: "column_names r = map col_name (filter (\<lambda>c. list_ex notna (col_values c)) (columns u))"
    by (simp add: r cleanup_column_names)
  have 3: "distinct ?ns" by (rule first_occurrences_distinct)
  have 4: "set ?ns \<subseteq> set ?raw" by (rule first_occurrences_set)
  from that [OF 2 1 3 4] show ?thesis .
qed

subsection \<open>The conversion loops and the labels they read\<close>

lemma length_one: "length xs = Suc 0 \<longleftrightarrow> (\<exists>x. xs = [x])"
  by (cases xs) auto

lemma getitem_map_columns:
  assumes "\<And>c. col_name (h c) = col_name c"
  shows "getitem (map_columns h df) k = map h (getitem df k)"
  by (simp add: getitem_def map_columns_def filter_map comp_def assms)

lemma for_each_resolved:
  assumes single: "\<And>k df s. getitem df k = [s] \<Longrightarrow>
                     body k df = Inr (map_columns (\<lambda>c. if col_name c = k then g c else c) df)"
      and N: "\<And>c. col_name (g c) = col_name c"
  shows "\<forall>k\<in>set ks. length (getitem df k) = 1 \<Longrightarrow> distinct ks \<Longrightarrow>
         for_each body ks df = Inr (map_columns (\<lambda>c. if col_name c \<in> set ks then g c else c) df)"
proof (induction ks arbitrary: df)
  case Nil
  then show ?case by (simp add: map_columns_id)
next
  case (Cons k ks)
  let ?h = "\<lambda>c. if col_name c = k then g c else c"
  let ?df1 = "map_columns ?h df"
  have hn: "\<And>c. col_name (?h c) = col_name c" by (simp add: N)
  obtain s where "getitem df k = [s]"
    using Cons.prems(1) by (auto simp: length_one)
  then have b: "body k df = Inr ?df1" by (rule single)
  have u: "\<forall>k'\<in>set ks. length (getitem ?df1 k') = 1"
    using Cons.prems(1) by (simp add: getitem_map_columns [of ?h, OF hn])
  have "for_each body ks ?df1 = Inr (map_columns (\<lambda>c. if col_name c \<in> set ks then g c else c) ?df1)"
    using u Cons.prems(2) by (intro Cons.IH) simp_all
  also have "map_columns (\<lambda>c. if col_name c \<in> set ks then g c else c) ?df1
           = map_columns (\<lambda>c. if col_name c \<in> set (k # ks) then g c else c) df"
    unfolding map_columns_map_columns
    using Cons.prems(2) by (intro map_columns_cong) (auto simp: N)
  finally show ?case using b by simp
qed

lemma for_each_Inr_resolved:
  assumes step: "\<And>k df df'. body k df = Inr df' \<Longrightarrow>
                   length (getitem df k) = 1 \<and>
                   df' = map_columns (\<lambda>c. if col_name c = k then g c else c) df"
      and N: "\<And>c. col_name (g c) = col_name c"
  shows "for_each body ks df = Inr df' \<Longrightarrow> \<forall>k\<in>set ks. length (getitem df k) = 1"
proof (induction ks arbitrary: df)
  case Nil
  then show ?case by simp
next
  case (Cons k ks)
  let ?h = "\<lambda>c. if col_name c = k then g c else c"
  have hn: "\<And>c. col_name (?h c) = col_name c" by (simp add: N)
  from Cons.prems obtain df1 where b: "body k df = Inr df1" and r: "for_each body ks df1 = Inr df'"
    by (auto split: sum.splits)
  from step [OF b] have k: "length (getitem df k) = 1" and df1: "df1 = map_columns ?h df" by simp_all
  have "\<forall>k'\<in>set ks. length (getitem df1 k') = 1" using r by (rule Cons.IH)
  then have "\<forall>k'\<in>set ks. length (getitem df k') = 1"
    unfolding df1 by (simp add: getitem_map_columns [of ?h, OF hn])
  then show ?case using k by simp
qed

lemma datetime_body_Inr_length: "datetime_body to_dt k df = Inr df' \<Longrightarrow> length (getitem df k) = 1"
  by (auto simp: datetime_body_def split: list.splits)


lemma resolved_keys_distinct:
  assumes "labels_resolve df"
  shows "distinct (select_dtypes_object df)"
proof -
  have "(\<And>k. length (filter (\<lambda>c. col_name c = k \<and> col_dtype c = ObjectDtype) cs) \<le> 1) \<Longrightarrow>
        distinct (map col_name (filter (\<lambda>c. col_dtype c = ObjectDtype) cs))"
    for cs :: "('a, 'b) series list"
  proof (induction cs)
    case Nil
    then show ?case by simp
  next
    case (Cons c cs)
    have le: "length (filter (\<lambda>c. col_name c = k \<and> col_dtype c = ObjectDtype) cs) \<le> 1" for k
      using Cons.prems [of k] by (simp split: if_splits)
    have IH: "distinct (map col_name (filter (\<lambda>c. col_dtype c = ObjectDtype) cs))"
      by (rule Cons.IH) (rule le)
    show ?case
    proof (cases "col_dtype c = ObjectDtype")
      case True
      have "col_name c \<notin> set (map col_name (filter (\<lambda>c. col_dtype c = ObjectDtype) cs))"
      proof
        assume "col_name c \<in> set (map col_name (filter (\<lambda>c. col_dtype c = ObjectDtype) cs))"
        then obtain c' where "c' \<in> set cs" "col_dtype c' = ObjectDtype" "col_name c' = col_name c"
          by auto
        then have "filter (\<lambda>x. col_name x = col_name c \<and> col_dtype x = ObjectDtype) cs \<noteq> []"
          by (auto simp: filter_empty_conv)
        then have "0 < length (filter (\<lambda>x. col_name x = col_name c \<and> col_dtype x = ObjectDtype) cs)"
          by simp
        then show False using Cons.prems [of "col_name c"] True by simp
      qed
      then show ?thesis using IH True by simp
    next
      case False
      then show ?thesis using IH by simp
    qed
  qed
  moreover have "length (filter (\<lambda>c. col_name c = k \<and> col_dtype c = ObjectDtype) (columns df)) \<le> 1" for k
  proof (cases "k \<in> set (select_dtypes_object df)")
    case True
    then have "length (filter (\<lambda>c. col_name c = k) (columns df)) = 1"
      using assms by (simp add: labels_resolve_def list_all_iff getitem_def)
    moreover have "length (filter (\<lambda>c. col_dtype c = ObjectDtype) (filter (\<lambda>c. col_name c = k) (columns df)))
        \<le> length (filter (\<lambda>c. col_name c = k) (columns df))"
      by (rule length_filter_le)
    ultimately show ?thesis by (simp add: conj_commute)
  next
    case False
    then have "filter (\<lambda>c. col_name c = k \<and> col_dtype c = ObjectDtype) (columns df) = []"
      by (auto simp: select_dtypes_object_def filter_empty_conv)
    then show ?thesis by simp
  qed
  ultimately show ?thesis by (simp add: select_dtypes_object_def)
qed

lemma resolved_object_keys:
  assumes "labels_resolve df" "c \<in> set (columns df)"
  shows "col_name c \<in> set (select_dtypes_object df) \<longleftrightarrow> col_dtype c = ObjectDtype"
proof
  assume k: "col_name c \<in> set (select_dtypes_object df)"
  then obtain c' where c': "c' \<in> set (columns df)" "col_dtype c' = ObjectDtype" "col_name c' = col_name c"
    by (auto simp: select_dtypes_object_def)
  from k assms(1) obtain s where s: "getitem df (col_name c) = [s]"
    by (auto simp: labels_resolve_def list_all_iff length_one)
  have "c = s" using getitem_single [OF s assms(2)] by simp
  moreover have "c' = s" using getitem_single [OF s c'(1) c'(3)] by simp
  ultimately show "col_dtype c = ObjectDtype" using c' by simp
next
  assume "col_dtype c = ObjectDtype"
  then show "col_name c \<in> set (select_dtypes_object df)"
    using assms(2) by (auto simp: select_dtypes_object_def)
qed

lemma distinct_labels_resolve: "distinct (column_names df) \<Longrightarrow> labels_resolve df"
  unfolding labels_resolve_def list_all_iff
  using getitem_unique [of df] object_keys_subset [of df] by (auto simp: length_one)

lemma convert_dates_resolved:
  assumes "labels_resolve df"
  shows "convert_dates to_dt df
       = Inr (map_columns (\<lambda>c. if col_dtype c = ObjectDtype then date_inference to_dt c else c) df)"
proof -
  have "convert_dates to_dt df
      = Inr (map_columns (\<lambda>c. if col_name c \<in> set (select_dtypes_object df)
                               then date_inference to_dt c else c) df)"
    unfolding convert_dates_def
    using assms resolved_keys_distinct [OF assms]
    by (intro for_each_resolved [where body = "datetime_body to_dt" and g = "date_inference to_dt",
          OF datetime_body_single col_name_date_inference])
       (simp_all add: labels_resolve_def list_all_iff)
  also have "map_columns (\<lambda>c. if col_name c \<in> set (select_dtypes_object df)
                               then date_inference to_dt c else c) df
      = map_columns (\<lambda>c. if col_dtype c = ObjectDtype then date_inference to_dt c else c) df"
    by (rule map_columns_cong) (simp add: resolved_object_keys [OF assms])
  finally show ?thesis .
qed

lemma convert_numbers_resolved:
  assumes "labels_resolve df"
  shows "convert_numbers to_num df
       = Inr (map_columns (\<lambda>c. if col_dtype c = ObjectDtype then numeric_inference to_num c else c) df)"
proof -
  have "convert_numbers to_num df
      = Inr (map_columns (\<lambda>c. if col_name c \<in> set (select_dtypes_object df)
                               then numeric_inference to_num c else c) df)"
    unfolding convert_numbers_def
    using assms resolved_keys_distinct [OF assms]
    by (intro for_each_resolved [where body = "numeric_body to_num" and g = "numeric_inference to_num",
          OF numeric_body_single col_name_numeric_inference])
       (simp_all add: labels_resolve_def list_all_iff)
  also have "map_columns (\<lambda>c. if col_name c \<in> set (select_dtypes_object df)
                               then numeric_inference to_num c else c) df
      = map_columns (\<lambda>c. if col_dtype c = ObjectDtype then numeric_inference to_num c else c) df"
    by (rule map_columns_cong) (simp add: resolved_object_keys [OF assms])
  finally show ?thesis .
qed

lemma convert_dates_Inr_resolve:
  assumes "convert_dates to_dt df = Inr df'"
  shows "labels_resolve df"
proof -
  have "\<forall>k\<in>set (select_dtypes_object df). length (getitem df k) = 1"
    using assms unfolding convert_dates_def
    by (rule for_each_Inr_resolved [where body = "datetime_body to_dt" and g = "date_inference to_dt", rotated 2])
       (auto dest: datetime_body_Inr datetime_body_Inr_length simp: col_name_date_inference)
  then show ?thesis by (simp add: labels_resolve_def list_all_iff)
qed


lemma labels_resolve_after_dates:
  assumes "labels_resolve df"
  shows "labels_resolve (map_columns (\<lambda>c. if col_dtype c = ObjectDtype then date_inference to_dt c else c) df)"
proof -
  let ?h = "\<lambda>c. if col_dtype c = ObjectDtype then date_inference to_dt c else c"
  have hn: "\<And>c. col_name (?h c) = col_name c" by (simp add: col_name_date_inference)
  have "set (select_dtypes_object (map_columns ?h df)) \<subseteq> set (select_dtypes_object df)"
    by (auto simp: select_dtypes_object_def map_columns_def date_inference_def Let_def split: if_splits)
  then show ?thesis
    using assms unfolding labels_resolve_def list_all_iff
    by (auto simp: getitem_map_columns [of ?h, OF hn])
qed

lemma convert_types_resolved:
  "(\<exists>df'. convert_types to_dt to_num df = Inr df') \<longleftrightarrow> labels_resolve df"
proof
  assume "\<exists>df'. convert_types to_dt to_num df = Inr df'"
  then obtain df1 where "convert_dates to_dt df = Inr df1"
    by (auto simp: convert_types_def split: sum.splits)
  then show "labels_resolve df" by (rule convert_dates_Inr_resolve)
next
  assume a: "labels_resolve df"
  from convert_numbers_resolved [OF labels_resolve_after_dates [OF a], of to_num to_dt]
  show "\<exists>df'. convert_types to_dt to_num df = Inr df'"
    by (simp add: convert_types_def convert_dates_resolved [OF a])
qed

lemma convert_dates_cases:
  "(if labels_resolve df
    then convert_dates to_dt df
         = Inr (map_columns (\<lambda>c. if col_dtype c = ObjectDtype then date_inference to_dt c else c) df)
    else \<exists>e. convert_dates to_dt df = Inl e)"
proof (cases "labels_resolve df")
  case True
  then show ?thesis by (simp add: convert_dates_resolved)
next
  case False
  then have "\<And>df'. convert_dates to_dt df \<noteq> Inr df'" using convert_dates_Inr_resolve by blast
  then have "\<exists>e. convert_dates to_dt df = Inl e" by (cases "convert_dates to_dt df") auto
  then show ?thesis using False by simp
qed



lemma clean_prepared:
  "clean to_dt to_num t
   = (case convert_types to_dt to_num (prepared t) of Inl e \<Rightarrow> Inl e | Inr u \<Rightarrow> Inr (cleanup u))"
  by (simp add: clean_def clean_dataframe_def prepared_def Let_def)

lemma clean_cases:
  "(if labels_resolve (prepared t)
    then \<exists>u. convert_types to_dt to_num (prepared t) = Inr u \<and> clean to_dt to_num t = Inr (cleanup u)
    else \<exists>e. clean to_dt to_num t = Inl e)"
proof (cases "labels_resolve (prepared t)")
  case True
  then obtain u where "convert_types to_dt to_num (prepared t) = Inr u"
    using convert_types_resolved [of to_dt to_num "prepared t"] by blast
  then show ?thesis using True by (simp add: clean_prepared)
next
  case False
  then have "\<And>u. convert_types to_dt to_num (prepared t) \<noteq> Inr u"
    using convert_types_resolved [of to_dt to_num "prepared t"] by blast
  then obtain e where "convert_types to_dt to_num (prepared t) = Inl e"
    by (cases "convert_types to_dt to_num (prepared t)") auto
  then show ?thesis using False by (simp add: clean_prepared)
qed

lemma nrows_prepared: "nrows (prepared t) = nrows t"
  by (simp add: prepared_def applymap_def clean_names_def rename_columns_def
      drop_duplicate_columns_def take_columns_def)

lemma columns_prepared:
  "\<exists>cs. set cs \<subseteq> set (columns t) \<and>
        columns (prepared t)
        = map (\<lambda>c. c\<lparr>col_name := sub_special (strip (col_name c)),
                       col_values := map clean_cell (col_values c)\<rparr>) cs"
proof -
  let ?t1 = "rename_columns strip t"
  let ?idx = "nonzero (map Not (duplicated (column_names ?t1)))"
  let ?cs = "map (\<lambda>j. columns t ! j) ?idx"
  have len: "length (column_names ?t1) = length (columns t)"
    by (simp add: column_names_def rename_columns_def)
  have in_range: "\<And>j. j \<in> set ?idx \<Longrightarrow> j < length (columns t)"
    using len by (auto simp: set_nonzero)
  then have 1: "set ?cs \<subseteq> set (columns t)" by auto
  have "map (\<lambda>j. columns ?t1 ! j) ?idx = map (\<lambda>j. (columns t ! j)\<lparr>col_name := strip (col_name (columns t ! j))\<rparr>) ?idx"
  proof (rule map_cong [OF refl])
    fix j assume "j \<in> set ?idx"
    then have "j < length (columns t)" by (rule in_range)
    then show "columns ?t1 ! j = (columns t ! j)\<lparr>col_name := strip (col_name (columns t ! j))\<rparr>"
      by (simp add: rename_columns_def)
  qed
  then have "columns (prepared t)
        = map (\<lambda>c. c\<lparr>col_name := sub_special (strip (col_name c)),
                       col_values := map clean_cell (col_values c)\<rparr>) ?cs"
    by (simp add: prepared_def applymap_def clean_names_def drop_duplicate_columns_def
        take_columns_def comp_def)
       (simp add: rename_columns_def comp_def)
  with 1 show ?thesis by blast
qed



subsection \<open>A second pass over a cleaned frame\<close>

lemma well_formed_prepared: "well_formed t \<Longrightarrow> well_formed (prepared t)"
proof -
  assume w: "well_formed t"
  obtain cs where cs: "set cs \<subseteq> set (columns t)"
    "columns (prepared t) = map (\<lambda>c. c\<lparr>col_name := sub_special (strip (col_name c)),
                       col_values := map clean_cell (col_values c)\<rparr>) cs"
    using columns_prepared [of t] by blast
  have "\<And>c. c \<in> set cs \<Longrightarrow> length (col_values c) = nrows t"
    using w cs(1) by (auto simp: well_formed_def list_all_iff)
  then show ?thesis by (simp add: well_formed_def cs(2) list_all_iff nrows_prepared)
qed

lemma prepared_cells_clean:
  "list_all (\<lambda>c. list_all (\<lambda>v. clean_cell v = v) (col_values c)) (columns (prepared t))"
proof -
  obtain cs where cs: 
    "columns (prepared t) = map (\<lambda>c. c\<lparr>col_name := sub_special (strip (col_name c)),
                       col_values := map clean_cell (col_values c)\<rparr>) cs"
    using columns_prepared [of t] by blast
  show ?thesis by (simp add: cs list_all_iff clean_cell_idem)
qed

lemma clean_cell_parsed_date: "clean_cell (parsed_date to_dt v) = parsed_date to_dt v"
  by (simp add: parsed_date_def clean_cell_def split: cell.splits option.splits)

lemma clean_cell_numeric_value: "clean_cell (numeric_value to_num v) = numeric_value to_num v"
  by (simp add: numeric_value_def clean_cell_def split: parsed.splits)

lemma converted_frame:
  assumes "well_formed t" "convert_types to_dt to_num (prepared t) = Inr u"
  shows "well_formed u \<and> list_all (\<lambda>c. list_all (\<lambda>v. clean_cell v = v) (col_values c)) (columns u)"
proof -
  let ?Q = "\<lambda>c. length (col_values c) = nrows t \<and> list_all (\<lambda>v. clean_cell v = v) (col_values c)"
  have p: "list_all ?Q (columns (prepared t))"
    using well_formed_prepared [OF assms(1)] prepared_cells_clean [of t]
    by (simp add: well_formed_def list_all_iff nrows_prepared)
  have "nrows u = nrows (prepared t) \<and> column_names u = column_names (prepared t) \<and>
        (list_all ?Q (columns (prepared t)) \<longrightarrow> list_all ?Q (columns u))"
    by (rule convert_types_preserves [OF assms(2)])
       (simp_all add: date_inference_def Let_def numeric_inference_def list_all_iff
          clean_cell_parsed_date clean_cell_numeric_value)
  then show ?thesis using p by (simp add: well_formed_def list_all_iff nrows_prepared)
qed

lemma take_rows_cells:
  assumes "well_formed df" "\<forall>i\<in>set idx. i < nrows df" "c \<in> set (columns (take_rows idx df))"
  shows "\<exists>c0\<in>set (columns df). set (col_values c) \<subseteq> set (col_values c0)"
proof -
  from assms(3) obtain c0 where c0: "c0 \<in> set (columns df)"
    and c: "c = c0\<lparr>col_values := map (\<lambda>i. col_values c0 ! i) idx\<rparr>"
    by (auto simp: columns_take_rows)
  have "length (col_values c0) = nrows df" using assms(1) c0 by (simp add: well_formed_def list_all_iff)
  then have "set (col_values c) \<subseteq> set (col_values c0)" using assms(2) by (auto simp: c)
  with c0 show ?thesis by blast
qed

lemma well_formed_dropna_columns: "well_formed df \<Longrightarrow> well_formed (dropna_columns df)"
  by (simp add: well_formed_def dropna_columns_def list_all_iff)

lemma well_formed_drop_duplicates: "well_formed df \<Longrightarrow> well_formed (drop_duplicates df)"
  by (simp add: drop_duplicates_def well_formed_take_rows)

lemma drop_duplicates_cells:
  assumes "well_formed df" "c \<in> set (columns (drop_duplicates df))"
  shows "\<exists>c0\<in>set (columns df). set (col_values c) \<subseteq> set (col_values c0)"
proof (cases "nrows df = 0 \<or> columns df = []")
  case True
  then show ?thesis using assms(2) by (auto simp: drop_duplicates_def)
next
  case False
  then have "c \<in> set (columns (take_rows (nonzero (map Not (duplicated (rows df)))) df))"
    using assms(2) by (simp add: drop_duplicates_def)
  then show ?thesis
    by (intro take_rows_cells [OF assms(1)]) (auto simp: set_nonzero length_rows)
qed

lemma dropna_rows_cells:
  assumes "well_formed df" "c \<in> set (columns (dropna_rows df))"
  shows "\<exists>c0\<in>set (columns df). set (col_values c) \<subseteq> set (col_values c0)"
  using assms(2) unfolding dropna_rows_def
  by (intro take_rows_cells [OF assms(1)]) (auto simp: set_nonzero length_rows)

lemma cleanup_cells:
  assumes "well_formed u" "c \<in> set (columns (cleanup u))"
  shows "\<exists>c0\<in>set (columns u). set (col_values c) \<subseteq> set (col_values c0)"
proof -
  let ?d1 = "dropna_columns u" and ?d2 = "drop_duplicates (dropna_columns u)"
  have w1: "well_formed ?d1" by (rule well_formed_dropna_columns [OF assms(1)])
  have w2: "well_formed ?d2" by (rule well_formed_drop_duplicates [OF w1])
  from assms(2) obtain c2 where c2: "c2 \<in> set (columns ?d2)" "set (col_values c) \<subseteq> set (col_values c2)"
    using dropna_rows_cells [OF w2, of c] by (auto simp: cleanup_def)
  from c2(1) obtain c1 where c1: "c1 \<in> set (columns ?d1)" "set (col_values c2) \<subseteq> set (col_values c1)"
    using drop_duplicates_cells [OF w1, of c2] by auto
  have "c1 \<in> set (columns u)" using c1(1) by (simp add: dropna_columns_def)
  with c1(2) c2(2) show ?thesis by blast
qed

lemma rename_columns_id:
  assumes "\<And>n. n \<in> set (column_names df) \<Longrightarrow> f n = n"
  shows "rename_columns f df = df"
proof -
  have "map (\<lambda>c. c\<lparr>col_name := f (col_name c)\<rparr>) (columns df) = columns df"
    by (rule map_idI) (simp add: assms column_names_def)
  then show ?thesis by (simp add: rename_columns_def)
qed

lemma drop_duplicate_columns_id:
  assumes "distinct (column_names df)"
  shows "drop_duplicate_columns df = df"
proof -
  have "nonzero (map Not (duplicated (column_names df))) = [0..<length (columns df)]"
    using nonzero_distinct [OF assms] by (simp add: column_names_def)
  then show ?thesis
    by (simp add: drop_duplicate_columns_def take_columns_def map_nth)
qed

lemma applymap_id:
  assumes "list_all (\<lambda>c. list_all (\<lambda>v. f v = v) (col_values c)) (columns df)"
  shows "applymap f df = df"
proof -
  have "map (\<lambda>c. c\<lparr>col_values := map f (col_values c)\<rparr>) (columns df) = columns df"
  proof (rule map_idI)
    fix c assume "c \<in> set (columns df)"
    then have "map f (col_values c) = col_values c"
      using assms by (intro map_idI) (simp add: list_all_iff)
    then show "c\<lparr>col_values := map f (col_values c)\<rparr> = c" by simp
  qed
  then show ?thesis by (simp add: applymap_def)
qed

lemma dropna_columns_id:
  assumes "list_all (\<lambda>c. list_ex notna (col_values c)) (columns df)"
  shows "dropna_columns df = df"
proof -
  have "filter (\<lambda>c. list_ex notna (col_values c)) (columns df) = columns df"
    using assms by (simp add: list_all_iff)
  then show ?thesis by (simp add: dropna_columns_def)
qed

lemma drop_duplicates_id:
  assumes "well_formed df" "columns df \<noteq> [] \<longrightarrow> distinct (rows df)"
  shows "drop_duplicates df = df"
proof (cases "nrows df = 0 \<or> columns df = []")
  case True
  then show ?thesis by (simp add: drop_duplicates_def)
next
  case False
  then have "distinct (rows df)" using assms(2) by simp
  then have "nonzero (map Not (duplicated (rows df))) = [0..<nrows df]"
    using nonzero_distinct [of "rows df"] by (simp add: length_rows)
  then show ?thesis using False by (simp add: drop_duplicates_def take_rows_all [OF assms(1)])
qed

lemma dropna_rows_id:
  assumes "well_formed df" "list_all (list_all notna) (rows df)"
  shows "dropna_rows df = df"
proof -
  have "nonzero (map (list_all notna) (rows df)) = [0..<nrows df]"
    using nonzero_all [OF assms(2)] by (simp add: length_rows)
  then show ?thesis by (simp add: dropna_rows_def take_rows_all [OF assms(1)])
qed

section \<open>The cell normalizer (C7, C9)\<close>

text \<open>
  C7.  The cell normalizer replaces a textual cell by its normalized text (leading and
  trailing whitespace stripped, every inner run of whitespace collapsed to one space),
  or by the missing marker exactly when that text equals one of the sentinels
  \<open>null\<close>, \<open>unknown\<close>, \<open>error\<close> up to case.  Cells that are not text pass through
  unchanged.  \<open>NULL\<close>, \<open>Unknown\<close> and \<open> error \<close> become missing, \<open>nullable\<close> does not,
  and \<open>a   b\t c\<close> becomes \<open>a b c\<close>.
\<close>

theorem clean_cell_normalizes:
  "clean_cell (Text s :: ('n, 'd) cell) =
     (if list_ex (equals_ignoring_case (normalized_text s)) sentinels then Missing
      else Text (normalized_text s))
   \<and> clean_cell (Missing :: ('n, 'd) cell) = Missing
   \<and> clean_cell (Number x :: ('n, 'd) cell) = Number x
   \<and> clean_cell (DateTime d :: ('n, 'd) cell) = DateTime d
   \<and> clean_cell (Text ''NULL'' :: ('n, 'd) cell) = Missing
   \<and> clean_cell (Text ''Unknown'' :: ('n, 'd) cell) = Missing
   \<and> clean_cell (Text '' error '' :: ('n, 'd) cell) = Missing
   \<and> clean_cell (Text ''nullable'' :: ('n, 'd) cell) = Text ''nullable''
   \<and> clean_cell (Text [CHR ''a'', CHR '' '', CHR '' '', CHR '' '', CHR ''b'', CHR 0x09, CHR '' '', CHR ''c'']
                   :: ('n, 'd) cell) = Text ''a b c''"
proof -
  have ev: "lower ''NULL'' = ''null''" "lower ''Unknown'' = ''unknown''" "lower ''error'' = ''error''"
    "lower ''nullable'' = ''nullable''" "lower ''a b c'' = ''a b c''"
    by code_simp+
  have "clean_cell (Text ''NULL'' :: ('n, 'd) cell) = Missing"
    by (simp add: clean_cell_def strip_def lstrip_def rstrip_def isspace_def ev sentinels_def)
  moreover have "clean_cell (Text ''Unknown'' :: ('n, 'd) cell) = Missing"
    by (simp add: clean_cell_def strip_def lstrip_def rstrip_def isspace_def ev sentinels_def)
  moreover have "clean_cell (Text '' error '' :: ('n, 'd) cell) = Missing"
    by (simp add: clean_cell_def strip_def lstrip_def rstrip_def isspace_def ev sentinels_def)
  moreover have "clean_cell (Text ''nullable'' :: ('n, 'd) cell) = Text ''nullable''"
    by (simp add: clean_cell_def strip_def lstrip_def rstrip_def isspace_def ev sentinels_def)
  moreover have "clean_cell (Text [CHR ''a'', CHR '' '', CHR '' '', CHR '' '', CHR ''b'', CHR 0x09, CHR '' '', CHR ''c'']
                   :: ('n, 'd) cell) = Text ''a b c''"
    by (simp add: clean_cell_def strip_def lstrip_def rstrip_def isspace_def ev sentinels_def)
  ultimately show ?thesis
    by (simp add: clean_cell_Text) (simp add: clean_cell_def)
qed



section \<open>Column names (C1)\<close>

text \<open>
  A column labelled with a single space comes out labelled with the empty string, which
  the pattern \<open>^[A-Za-z0-9_]+$\<close> rejects; and the labels \<open>a b\<close> and \<open>a_b\<close>, distinct
  when duplicates are removed on line 30, are both \<open>a_b\<close> after line 32.
\<close>

theorem column_names_counterexample:
  "clean iso_dates decimals (frame 1 [('' '', NumericDtype, [Number 1])])
     = Inr (frame 1 [('''', NumericDtype, [Number 1])])
   \<and> \<not> list_all matches_name_pattern (column_names (frame 1 [('''', NumericDtype, [Number 1])]))
   \<and> clean iso_dates decimals
        (frame 1 [(''a b'', NumericDtype, [Number 1]), (''a_b'', NumericDtype, [Number 2])])
     = Inr (frame 1 [(''a_b'', NumericDtype, [Number 1]), (''a_b'', NumericDtype, [Number 2])])
   \<and> \<not> distinct (column_names
         (frame 1 [(''a_b'', NumericDtype, [Number 1]), (''a_b'', NumericDtype, [Number 2])]))"
proof -
  have "clean iso_dates decimals (frame 1 [('' '', NumericDtype, [Number 1])])
     = Inr (frame 1 [('''', NumericDtype, [Number 1])])"
    by code_simp
  moreover have "\<not> list_all matches_name_pattern (column_names (frame 1 [('''', NumericDtype, [Number 1])]))"
    by (simp add: matches_name_pattern_def column_names_def frame_def)
  moreover have "clean iso_dates decimals
        (frame 1 [(''a b'', NumericDtype, [Number 1]), (''a_b'', NumericDtype, [Number 2])])
     = Inr (frame 1 [(''a_b'', NumericDtype, [Number 1]), (''a_b'', NumericDtype, [Number 2])])"
    by code_simp
  moreover have "\<not> distinct (column_names
         (frame 1 [(''a_b'', NumericDtype, [Number 1]), (''a_b'', NumericDtype, [Number 2])]))"
    by (simp add: column_names_def frame_def)
  ultimately show ?thesis by blast
qed

text \<open>
  C1, as amended.  Every column name of the returned table consists of letters, digits
  and underscores only (so it has no whitespace at either end); it matches
  \<open>^[A-Za-z0-9_]+$\<close> when no input name is empty after stripping; and the names are
  pairwise distinct when line 32 maps no two different stripped input names to the same
  name.
\<close>

theorem cleaned_column_names:
  fixes t :: "('n, 'd) dataframe"
  assumes "clean to_dt to_num t = Inr r"
  shows "list_all (list_all allowed) (column_names r)
       \<and> (list_all (\<lambda>n. strip n \<noteq> []) (column_names t) \<longrightarrow>
            list_all matches_name_pattern (column_names r))
       \<and> (inj_on sub_special (set (map strip (column_names t))) \<longrightarrow> distinct (column_names r))"
proof -
  from assms obtain cs :: "('n, 'd) series list" and ns where
    r: "column_names r = map col_name (filter (\<lambda>c. list_ex notna (col_values c)) cs)"
    and cs: "map col_name cs = map sub_special ns"
    and d: "distinct ns" and sub: "set ns \<subseteq> set (map strip (column_names t))"
    by (rule clean_column_names_sub)
  have mem: "\<exists>m\<in>set ns. n = sub_special m" if "n \<in> set (column_names r)" for n
  proof -
    from that have "n \<in> set (map col_name cs)" by (auto simp: r)
    then show ?thesis by (auto simp: cs)
  qed
  have 1: "list_all (list_all allowed) (column_names r)"
    unfolding list_all_iff using mem sub_special_allowed by (fastforce simp: list_all_iff)
  have 2: "list_all matches_name_pattern (column_names r)"
    if "list_all (\<lambda>n. strip n \<noteq> []) (column_names t)"
    unfolding list_all_iff
  proof
    fix n assume n: "n \<in> set (column_names r)"
    then obtain m where m: "m \<in> set ns" "n = sub_special m" using mem by blast
    then have "m \<in> strip ` set (column_names t)" using sub by auto
    then obtain n0 where "n0 \<in> set (column_names t)" "m = strip n0" by blast
    then have "m \<noteq> []" using that by (simp add: list_all_iff)
    then show "matches_name_pattern n"
      using m sub_special_allowed [of m] by (simp add: matches_name_pattern_def sub_special_Nil)
  qed
  have 3: "distinct (column_names r)" if "inj_on sub_special (set (map strip (column_names t)))"
  proof -
    have "inj_on sub_special (set ns)" using that sub by (rule inj_on_subset)
    then have "distinct (map col_name cs)" using d by (simp add: cs distinct_map)
    then show ?thesis by (simp add: r distinct_map_filter)
  qed
  from 1 2 3 show ?thesis by blast
qed

text \<open>
  The theorem at a frame with the labels \<open>Name \<close>, \<open>Name\<close> and \<open>Amt $\<close>.
\<close>

theorem cleaned_column_names_witness:
  "clean iso_dates decimals
     (frame 2 [(''Name '', ObjectDtype, [Text ''ann'', Text ''bob'']),
               (''Name'', ObjectDtype, [Text ''x'', Text ''y'']),
               (''Amt $'', ObjectDtype, [Text ''1'', Text ''2''])])
   = Inr (frame 2 [(''Name'', ObjectDtype, [Text ''ann'', Text ''bob'']),
                   (''Amt_'', NumericDtype, [Number 1, Number 2])])
   \<and> list_all (list_all allowed) [''Name'', ''Amt_'']
   \<and> list_all matches_name_pattern [''Name'', ''Amt_'']
   \<and> distinct [''Name'', ''Amt_'']"
proof -
  let ?t = "frame 2 [(''Name '', ObjectDtype, [Text ''ann'', Text ''bob'']),
               (''Name'', ObjectDtype, [Text ''x'', Text ''y'']),
               (''Amt $'', ObjectDtype, [Text ''1'', Text ''2''])]"
  let ?r = "frame 2 [(''Name'', ObjectDtype, [Text ''ann'', Text ''bob'']),
                   (''Amt_'', NumericDtype, [Number 1, Number 2])]"
  have c: "clean iso_dates decimals ?t = Inr ?r" by code_simp
  have h1: "list_all (\<lambda>n. strip n \<noteq> []) (column_names ?t)" by code_simp
  have "distinct (map sub_special (remdups (map strip (column_names ?t))))" by code_simp
  then have h2: "inj_on sub_special (set (map strip (column_names ?t)))"
    by (simp only: distinct_map set_remdups)
  have n: "column_names ?r = [''Name'', ''Amt_'']" by (simp add: column_names_def frame_def)
  from cleaned_column_names [OF c] h1 h2 c show ?thesis
    unfolding n by blast
qed

section \<open>The returned table (C2)\<close>

text \<open>
  Two returned tables that break the invariants as the specification states them.  A
  table whose rows all hold a missing cell comes back with its columns and no row: each
  column is entirely missing in the sense of \<open>dropna(how='all')\<close>, which would drop it.
  A table whose only column is entirely missing comes back with no column and its two
  rows, which are equal.
\<close>

theorem cleanup_invariants_counterexample:
  "clean iso_dates decimals
     (frame 2 [(''A'', ObjectDtype, [Text ''x'', Missing]), (''B'', ObjectDtype, [Missing, Text ''y''])])
   = Inr (frame 0 [(''A'', ObjectDtype, []), (''B'', ObjectDtype, [])])
   \<and> list_ex entirely_missing (columns (frame 0 [(''A'', ObjectDtype, []), (''B'', ObjectDtype, [])]))
   \<and> clean iso_dates decimals (frame 2 [(''A'', NumericDtype, [Missing, Missing])])
   = Inr (frame 2 [])
   \<and> rows (frame 2 []) = [Nil, Nil]
   \<and> \<not> distinct (rows (frame 2 []))"
proof -
  have "clean iso_dates decimals
     (frame 2 [(''A'', ObjectDtype, [Text ''x'', Missing]), (''B'', ObjectDtype, [Missing, Text ''y''])])
   = Inr (frame 0 [(''A'', ObjectDtype, []), (''B'', ObjectDtype, [])])"
    by code_simp
  moreover have "list_ex entirely_missing (columns (frame 0 [(''A'', ObjectDtype, []), (''B'', ObjectDtype, [])]))"
    by (simp add: entirely_missing_def frame_def)
  moreover have "clean iso_dates decimals (frame 2 [(''A'', NumericDtype, [Missing, Missing])])
   = Inr (frame 2 [])"
    by code_simp
  moreover have "rows (frame 2 []) = [Nil, Nil]" by code_simp
  ultimately show ?thesis by simp
qed

text \<open>
  C2, as amended.  The returned table has no missing cell: no column holds one and no
  row holds one.  When it has at least one row, none of its columns is entirely missing;
  when it has at least one column, no two of its rows are equal.  Every column is as
  long as the index.
\<close>

theorem cleaned_frame_invariants:
  assumes "clean to_dt to_num t = Inr r"
  shows "list_all (\<lambda>c. list_all notna (col_values c)) (columns r)
       \<and> list_all (list_all notna) (rows r)
       \<and> (0 < nrows r \<longrightarrow> \<not> list_ex entirely_missing (columns r))
       \<and> (columns r \<noteq> [] \<longrightarrow> distinct (rows r))
       \<and> well_formed r"
proof -
  from assms obtain u where r: "r = cleanup u" by (rule clean_Inr)
  have 1: "list_all (\<lambda>c. list_all notna (col_values c)) (columns r)"
    unfolding r list_all_iff [of _ "columns (cleanup u)"] using cleanup_notna by blast
  have 2: "list_all (list_all notna) (rows r)"
    unfolding r list_all_iff [of _ "rows (cleanup u)"] using cleanup_rows_notna by blast
  have 5: "well_formed r" by (simp add: r cleanup_well_formed)
  have 3: "\<not> list_ex entirely_missing (columns r)" if "0 < nrows r"
  proof -
    have "\<not> entirely_missing c" if c: "c \<in> set (columns r)" for c
    proof -
      have "length (col_values c) = nrows r" using 5 c by (simp add: well_formed_def list_all_iff)
      then obtain v vs where v: "col_values c = v # vs" using \<open>0 < nrows r\<close> by (cases "col_values c") auto
      have "list_all notna (col_values c)" using 1 c by (simp add: list_all_iff)
      then have "notna v" by (simp add: v)
      then show ?thesis by (simp add: entirely_missing_def v notna_def)
    qed
    then show ?thesis by (simp add: list_ex_iff)
  qed
  have 4: "distinct (rows r)" if "columns r \<noteq> []"
    using that unfolding r by (rule cleanup_distinct_rows)
  from 1 2 3 4 5 show ?thesis by blast
qed

text \<open>
  The theorem at the end-to-end scenario of the specification: the columns \<open>Name \<close>,
  \<open>Name\<close>, \<open>Date\<close> and \<open>Amt\<close>, a sentinel, a malformed date and a duplicate row.
\<close>

theorem cleaned_frame_invariants_witness:
  "clean iso_dates decimals
     (frame 6 [(''Name '', ObjectDtype, [Text ''ann'', Text ''bob'', Text ''NULL'', Text ''cat'', Text ''ann'', Text ''dan'']),
               (''Name'', ObjectDtype, [Text ''a'', Text ''b'', Text ''c'', Text ''d'', Text ''e'', Text ''f'']),
               (''Date'', ObjectDtype, [Text ''2021-01-01'', Text ''2021-01-02'', Text ''2021-01-03'',
                                        Text ''2021-01-04'', Text ''2021-01-01'', Text ''2021/13/45'']),
               (''Amt'', ObjectDtype, [Text ''1'', Text ''2'', Text ''3'', Text ''4'', Text ''1'', Text ''6''])])
   = Inr (frame 3 [(''Name'', ObjectDtype, [Text ''ann'', Text ''bob'', Text ''cat'']),
                   (''Date'', DatetimeDtype, [DateTime ''2021-01-01'', DateTime ''2021-01-02'', DateTime ''2021-01-04'']),
                   (''Amt'', NumericDtype, [Number 1, Number 2, Number 4])])
   \<and> list_all (list_all notna)
        (rows (frame 3 [(''Name'', ObjectDtype, [Text ''ann'', Text ''bob'', Text ''cat'']),
                   (''Date'', DatetimeDtype, [DateTime ''2021-01-01'', DateTime ''2021-01-02'', DateTime ''2021-01-04'']),
                   (''Amt'', NumericDtype, [Number 1, Number 2, Number 4])]))
   \<and> \<not> list_ex entirely_missing
        (columns (frame 3 [(''Name'', ObjectDtype, [Text ''ann'', Text ''bob'', Text ''cat'']),
                   (''Date'', DatetimeDtype, [DateTime ''2021-01-01'', DateTime ''2021-01-02'', DateTime ''2021-01-04'']),
                   (''Amt'', NumericDtype, [Number 1, Number 2, Number 4])]))
   \<and> distinct
        (rows (frame 3 [(''Name'', ObjectDtype, [Text ''ann'', Text ''bob'', Text ''cat'']),
                   (''Date'', DatetimeDtype, [DateTime ''2021-01-01'', DateTime ''2021-01-02'', DateTime ''2021-01-04'']),
                   (''Amt'', NumericDtype, [Number 1, Number 2, Number 4])]))"
proof -
  let ?t = "frame 6 [(''Name '', ObjectDtype, [Text ''ann'', Text ''bob'', Text ''NULL'', Text ''cat'', Text ''ann'', Text ''dan'']),
               (''Name'', ObjectDtype, [Text ''a'', Text ''b'', Text ''c'', Text ''d'', Text ''e'', Text ''f'']),
               (''Date'', ObjectDtype, [Text ''2021-01-01'', Text ''2021-01-02'', Text ''2021-01-03'',
                                        Text ''2021-01-04'', Text ''2021-01-01'', Text ''2021/13/45'']),
               (''Amt'', ObjectDtype, [Text ''1'', Text ''2'', Text ''3'', Text ''4'', Text ''1'', Text ''6''])]"
  let ?r = "frame 3 [(''Name'', ObjectDtype, [Text ''ann'', Text ''bob'', Text ''cat'']),
                   (''Date'', DatetimeDtype, [DateTime ''2021-01-01'', DateTime ''2021-01-02'', DateTime ''2021-01-04'']),
                   (''Amt'', NumericDtype, [Number 1, Number 2, Number 4])]"
  have c: "clean iso_dates decimals ?t = Inr ?r" by code_simp
  have n: "0 < nrows ?r" "columns ?r \<noteq> []" by (simp_all add: frame_def)
  from cleaned_frame_invariants [OF c] n c show ?thesis by blast
qed

section \<open>The frame of the caller (C3)\<close>



section \<open>Type inference (C5, C6)\<close>

text \<open>
  C5.  When \<open>df[col]\<close> resolves for every text column, the date loop returns the frame in
  which each text column is replaced by \<open>date_inference\<close> of it and every other column
  is as it was; otherwise the loop raises.  \<open>date_inference\<close> replaces the whole column by
  the parsed dates, cells that fail to parse becoming missing, exactly when the column
  has a non-missing cell and at least four fifths of its non-missing cells parse.  That
  is the comparison of the quotient \<open>parsedSuccessfully / nonMissingOriginal\<close> with 0.8
  made by the source, and \<open>parsedSuccessfully\<close> is the count of non-missing cells that
  \<open>to_datetime\<close> returns.  A column without a non-missing cell is left as it is.
\<close>

theorem date_conversion_rule:
  "(if labels_resolve df
    then convert_dates to_dt df
         = Inr (map_columns (\<lambda>c. if col_dtype c = ObjectDtype then date_inference to_dt c else c) df)
    else \<exists>e. convert_dates to_dt df = Inl e)
   \<and> (0 < non_missing_original c \<longrightarrow>
        (4 * non_missing_original c \<le> 5 * parsed_successfully parse c)
        = ((8 / 10 :: rat) \<le> of_nat (parsed_successfully parse c) / of_nat (non_missing_original c)))
   \<and> parsed_successfully parse c = length (filter notna (to_datetime_coerce parse (col_values c)))
   \<and> (non_missing_original c = 0 \<longrightarrow> date_inference to_dt c = c)"
proof -
  have "parsed_successfully parse c = length (filter notna (to_datetime_coerce parse (col_values c)))"
    unfolding to_datetime_coerce_parsed parsed_successfully_def by (rule count_parsed [symmetric])
  moreover have "non_missing_original c = 0 \<longrightarrow> date_inference to_dt c = c"
    by (simp add: date_inference_def)
  ultimately show ?thesis
    using convert_dates_cases [of df to_dt]
      threshold_exact [of "non_missing_original c" "parsed_successfully parse c"]
    by blast
qed

text \<open>
  The theorem at a frame whose column \<open>A\<close> has four dates among five cells (converted,
  the fifth cell missing), whose column \<open>B\<close> has three among five (left as text) and
  whose column \<open>C\<close> has no non-missing cell (left as it is).
\<close>

theorem date_conversion_rule_witness:
  "labels_resolve (frame 5 [(''A'', ObjectDtype, [Text ''2021-01-01'', Text ''2021-01-02'', Text ''soon'',
                                      Text ''2021-01-04'', Text ''2021-01-05'']),
              (''B'', ObjectDtype, [Text ''2021-01-01'', Text ''later'', Text ''soon'',
                                      Text ''2021-01-04'', Text ''2021-01-05'']),
              (''C'', ObjectDtype, [Missing, Missing, Missing, Missing, Missing])])
   \<and> convert_dates iso_dates
        (frame 5 [(''A'', ObjectDtype, [Text ''2021-01-01'', Text ''2021-01-02'', Text ''soon'',
                                      Text ''2021-01-04'', Text ''2021-01-05'']),
              (''B'', ObjectDtype, [Text ''2021-01-01'', Text ''later'', Text ''soon'',
                                      Text ''2021-01-04'', Text ''2021-01-05'']),
              (''C'', ObjectDtype, [Missing, Missing, Missing, Missing, Missing])])
     = Inr (frame 5 [(''A'', DatetimeDtype, [DateTime ''2021-01-01'', DateTime ''2021-01-02'', Missing,
                                      DateTime ''2021-01-04'', DateTime ''2021-01-05'']),
              (''B'', ObjectDtype, [Text ''2021-01-01'', Text ''later'', Text ''soon'',
                                      Text ''2021-01-04'', Text ''2021-01-05'']),
              (''C'', ObjectDtype, [Missing, Missing, Missing, Missing, Missing])])
   \<and> parsed_successfully (iso_dates [])
        \<lparr>col_name = ''A'', col_dtype = ObjectDtype,
         col_values = [Text ''2021-01-01'', Text ''2021-01-02'', Text ''soon'',
                       Text ''2021-01-04'', Text ''2021-01-05'']\<rparr> = 4
   \<and> non_missing_original
        \<lparr>col_name = ''A'', col_dtype = ObjectDtype,
         col_values = [Text ''2021-01-01'', Text ''2021-01-02'', Text ''soon'',
                       Text ''2021-01-04'', Text ''2021-01-05'' :: (int, string) cell]\<rparr> = 5
   \<and> (8 / 10 :: rat) \<le> of_nat 4 / of_nat 5"
proof -
  let ?a = "\<lparr>col_name = ''A'', col_dtype = ObjectDtype,
         col_values = [Text ''2021-01-01'', Text ''2021-01-02'', Text ''soon'',
                       Text ''2021-01-04'', Text ''2021-01-05'' :: (int, string) cell]\<rparr>"
  let ?df = "frame 5 [(''A'', ObjectDtype, [Text ''2021-01-01'', Text ''2021-01-02'', Text ''soon'',
                                      Text ''2021-01-04'', Text ''2021-01-05'']),
              (''B'', ObjectDtype, [Text ''2021-01-01'', Text ''later'', Text ''soon'',
                                      Text ''2021-01-04'', Text ''2021-01-05'']),
              (''C'', ObjectDtype, [Missing, Missing, Missing, Missing, Missing])]"
  have l: "labels_resolve ?df" by code_simp
  have p: "parsed_successfully (iso_dates []) ?a = 4" by code_simp
  have n: "non_missing_original ?a = 5" by code_simp
  have m: "map_columns (\<lambda>c. if col_dtype c = ObjectDtype then date_inference iso_dates c else c) ?df
    = frame 5 [(''A'', DatetimeDtype, [DateTime ''2021-01-01'', DateTime ''2021-01-02'', Missing,
                                      DateTime ''2021-01-04'', DateTime ''2021-01-05'']),
              (''B'', ObjectDtype, [Text ''2021-01-01'', Text ''later'', Text ''soon'',
                                      Text ''2021-01-04'', Text ''2021-01-05'']),
              (''C'', ObjectDtype, [Missing, Missing, Missing, Missing, Missing])]"
    by code_simp
  from date_conversion_rule [of ?df iso_dates ?a "iso_dates []"] l
  show ?thesis unfolding m p n by simp
qed



section \<open>Empty results (C8, C10)\<close>

text \<open>
  C8.  \<open>clean_dataframe\<close> raises only when the label of a text column of the prepared
  frame is carried by another column as well.  In every other case it returns the table
  that the cleanup makes of the converted frame, as a normal result, whatever the number
  of rows and columns of that table: no step of the cleanup raises on an empty frame.
\<close>

theorem clean_returns_unless_label_shared:
  "(if labels_resolve (prepared t)
    then \<exists>u. convert_types to_dt to_num (prepared t) = Inr u \<and> clean to_dt to_num t = Inr (cleanup u)
    else \<exists>e. clean to_dt to_num t = Inl e)
   \<and> (distinct (column_names (prepared t)) \<longrightarrow> labels_resolve (prepared t))"
  using clean_cases [of t to_dt to_num] distinct_labels_resolve [of "prepared t"] by blast

text \<open>
  The theorem at a table whose cleaning yields two columns and no row, and at a table
  whose cleaning yields two rows and no column; both are returned.
\<close>

theorem clean_returns_unless_label_shared_witness:
  "labels_resolve (prepared (frame 2 [(''A'', ObjectDtype, [Text ''x'', Missing]),
                                      (''B'', ObjectDtype, [Missing, Text ''y''])]))
   \<and> (\<exists>u. clean iso_dates decimals (frame 2 [(''A'', ObjectDtype, [Text ''x'', Missing]),
                                      (''B'', ObjectDtype, [Missing, Text ''y''])]) = Inr (cleanup u))
   \<and> clean iso_dates decimals (frame 2 [(''A'', ObjectDtype, [Text ''x'', Missing]),
                                      (''B'', ObjectDtype, [Missing, Text ''y''])])
     = Inr (frame 0 [(''A'', ObjectDtype, []), (''B'', ObjectDtype, [])])
   \<and> labels_resolve (prepared (frame 2 [(''A'', ObjectDtype, [Text ''unknown'', Text ''NULL''])]))
   \<and> clean iso_dates decimals (frame 2 [(''A'', ObjectDtype, [Text ''unknown'', Text ''NULL''])])
     = Inr (frame 2 [])"
proof -
  let ?t = "frame 2 [(''A'', ObjectDtype, [Text ''x'', Missing]),
                     (''B'', ObjectDtype, [Missing, Text ''y''])]"
  have l: "labels_resolve (prepared ?t)" by code_simp
  have c: "clean iso_dates decimals ?t = Inr (frame 0 [(''A'', ObjectDtype, []), (''B'', ObjectDtype, [])])"
    by code_simp
  have l2: "labels_resolve (prepared (frame 2 [(''A'', ObjectDtype, [Text ''unknown'', Text ''NULL''])]))"
    by code_simp
  have c2: "clean iso_dates decimals (frame 2 [(''A'', ObjectDtype, [Text ''unknown'', Text ''NULL''])])
     = Inr (frame 2 [])"
    by code_simp
  from clean_returns_unless_label_shared [of ?t iso_dates decimals]
  have "if labels_resolve (prepared ?t)
        then \<exists>u. convert_types iso_dates decimals (prepared ?t) = Inr u \<and> clean iso_dates decimals ?t = Inr (cleanup u)
        else \<exists>e. clean iso_dates decimals ?t = Inl e"
    by blast
  then have "\<exists>u. convert_types iso_dates decimals (prepared ?t) = Inr u \<and> clean iso_dates decimals ?t = Inr (cleanup u)"
    by (simp only: l if_True)
  then have "\<exists>u. clean iso_dates decimals ?t = Inr (cleanup u)" by blast
  with l c l2 c2 show ?thesis by blast
qed



section \<open>A second pass (C4)\<close>

text \<open>
  Three tables on which a second pass is not a no-op.  The first pass leaves \<open>X\<close> as
  text (four dates among six cells) and removes the duplicate row; the second pass finds
  four dates among five cells, converts \<open>X\<close> to dates and drops the row that did not
  parse.  The first pass returns two columns labelled \<open>a_b\<close>; the second pass removes
  the second of them as a duplicate.  The first pass returns two columns and no row; the
  second pass drops both columns.
\<close>

theorem idempotence_counterexample:
  "clean iso_dates decimals
     (frame 6 [(''X'', ObjectDtype, [Text ''x'', Text ''x'', Text ''2020-01-01'', Text ''2020-01-02'',
                                    Text ''2020-01-03'', Text ''2020-01-04''])])
   = Inr (frame 5 [(''X'', ObjectDtype, [Text ''x'', Text ''2020-01-01'', Text ''2020-01-02'',
                                        Text ''2020-01-03'', Text ''2020-01-04''])])
   \<and> clean iso_dates decimals
     (frame 5 [(''X'', ObjectDtype, [Text ''x'', Text ''2020-01-01'', Text ''2020-01-02'',
                                    Text ''2020-01-03'', Text ''2020-01-04''])])
   = Inr (frame 4 [(''X'', DatetimeDtype, [DateTime ''2020-01-01'', DateTime ''2020-01-02'',
                                          DateTime ''2020-01-03'', DateTime ''2020-01-04''])])
   \<and> map col_dtype (columns (frame 4 [(''X'', DatetimeDtype, [DateTime ''2020-01-01'', DateTime ''2020-01-02'',
                                          DateTime ''2020-01-03'', DateTime ''2020-01-04''])]))
     \<noteq> map col_dtype (columns (frame 5 [(''X'', ObjectDtype, [Text ''x'', Text ''2020-01-01'', Text ''2020-01-02'',
                                        Text ''2020-01-03'', Text ''2020-01-04''])]))
   \<and> length (rows (frame 4 [(''X'', DatetimeDtype, [DateTime ''2020-01-01'', DateTime ''2020-01-02'',
                                          DateTime ''2020-01-03'', DateTime ''2020-01-04''])]))
     \<noteq> length (rows (frame 5 [(''X'', ObjectDtype, [Text ''x'', Text ''2020-01-01'', Text ''2020-01-02'',
                                        Text ''2020-01-03'', Text ''2020-01-04''])]))
   \<and> clean iso_dates decimals
     (frame 1 [(''a b'', NumericDtype, [Number 1]), (''a_b'', NumericDtype, [Number 2])])
   = Inr (frame 1 [(''a_b'', NumericDtype, [Number 1]), (''a_b'', NumericDtype, [Number 2])])
   \<and> clean iso_dates decimals
     (frame 1 [(''a_b'', NumericDtype, [Number 1]), (''a_b'', NumericDtype, [Number 2])])
   = Inr (frame 1 [(''a_b'', NumericDtype, [Number 1])])
   \<and> column_names (frame 1 [(''a_b'', NumericDtype, [Number 1])])
     \<noteq> column_names (frame 1 [(''a_b'', NumericDtype, [Number 1]), (''a_b'', NumericDtype, [Number 2])])
   \<and> clean iso_dates decimals
     (frame 2 [(''A'', ObjectDtype, [Text ''x'', Missing]), (''B'', ObjectDtype, [Missing, Text ''y''])])
   = Inr (frame 0 [(''A'', ObjectDtype, []), (''B'', ObjectDtype, [])])
   \<and> clean iso_dates decimals (frame 0 [(''A'', ObjectDtype, []), (''B'', ObjectDtype, [])])
   = Inr (frame 0 [])
   \<and> column_names (frame 0 []) \<noteq> column_names (frame 0 [(''A'', ObjectDtype, []), (''B'', ObjectDtype, [])])"
proof -
  have "clean iso_dates decimals
     (frame 6 [(''X'', ObjectDtype, [Text ''x'', Text ''x'', Text ''2020-01-01'', Text ''2020-01-02'',
                                    Text ''2020-01-03'', Text ''2020-01-04''])])
   = Inr (frame 5 [(''X'', ObjectDtype, [Text ''x'', Text ''2020-01-01'', Text ''2020-01-02'',
                                        Text ''2020-01-03'', Text ''2020-01-04''])])"
    by code_simp
  moreover have "clean iso_dates decimals
     (frame 5 [(''X'', ObjectDtype, [Text ''x'', Text ''2020-01-01'', Text ''2020-01-02'',
                                    Text ''2020-01-03'', Text ''2020-01-04''])])
   = Inr (frame 4 [(''X'', DatetimeDtype, [DateTime ''2020-01-01'', DateTime ''2020-01-02'',
                                          DateTime ''2020-01-03'', DateTime ''2020-01-04''])])"
    by code_simp
  moreover have "map col_dtype (columns (frame 4 [(''X'', DatetimeDtype, [DateTime ''2020-01-01'', DateTime ''2020-01-02'',
                                          DateTime ''2020-01-03'', DateTime ''2020-01-04''])]))
     \<noteq> map col_dtype (columns (frame 5 [(''X'', ObjectDtype, [Text ''x'', Text ''2020-01-01'', Text ''2020-01-02'',
                                        Text ''2020-01-03'', Text ''2020-01-04''])]))"
    by (simp add: frame_def)
  moreover have "length (rows (frame 4 [(''X'', DatetimeDtype, [DateTime ''2020-01-01'', DateTime ''2020-01-02'',
                                          DateTime ''2020-01-03'', DateTime ''2020-01-04''])]))
     \<noteq> length (rows (frame 5 [(''X'', ObjectDtype, [Text ''x'', Text ''2020-01-01'', Text ''2020-01-02'',
                                        Text ''2020-01-03'', Text ''2020-01-04''])]))"
    by (simp add: length_rows frame_def)
  moreover have "clean iso_dates decimals
     (frame 1 [(''a b'', NumericDtype, [Number 1]), (''a_b'', NumericDtype, [Number 2])])
   = Inr (frame 1 [(''a_b'', NumericDtype, [Number 1]), (''a_b'', NumericDtype, [Number 2])])"
    by code_simp
  moreover have "clean iso_dates decimals
     (frame 1 [(''a_b'', NumericDtype, [Number 1]), (''a_b'', NumericDtype, [Number 2])])
   = Inr (frame 1 [(''a_b'', NumericDtype, [Number 1])])"
    by code_simp
  moreover have "column_names (frame 1 [(''a_b'', NumericDtype, [Number 1])])
     \<noteq> column_names (frame 1 [(''a_b'', NumericDtype, [Number 1]), (''a_b'', NumericDtype, [Number 2])])"
    by (simp add: column_names_def frame_def)
  moreover have "clean iso_dates decimals
     (frame 2 [(''A'', ObjectDtype, [Text ''x'', Missing]), (''B'', ObjectDtype, [Missing, Text ''y''])])
   = Inr (frame 0 [(''A'', ObjectDtype, []), (''B'', ObjectDtype, [])])"
    by code_simp
  moreover have "clean iso_dates decimals (frame 0 [(''A'', ObjectDtype, []), (''B'', ObjectDtype, [])])
   = Inr (frame 0 [])"
    by code_simp
  moreover have "column_names (frame 0 []) \<noteq> column_names (frame 0 [(''A'', ObjectDtype, []), (''B'', ObjectDtype, [])])"
    by (simp add: column_names_def frame_def)
  ultimately show ?thesis by blast
qed

text \<open>
  C4, as amended.  Let \<open>clean\<close> return \<open>r\<close> for a table whose columns are as long as
  its index.  If the column names of \<open>r\<close> are pairwise distinct, type inference converts
  no column of \<open>r\<close>, and \<open>r\<close> has a row or has no column, then \<open>clean\<close> returns \<open>r\<close>
  for \<open>r\<close>: the same column names, the same rows in the same order, and the same
  types.
\<close>

theorem second_pass_is_identity:
  fixes t :: "('n, 'd) dataframe"
  assumes wf: "well_formed t"
      and r: "clean to_dt to_num t = Inr r"
      and names: "distinct (column_names r)"
      and types: "convert_types to_dt to_num r = Inr r"
      and shape: "0 < nrows r \<or> columns r = []"
  shows "clean to_dt to_num r = Inr r"
proof -
  from r obtain u where u: "convert_types to_dt to_num (prepared t) = Inr u" and ru: "r = cleanup u"
    unfolding prepared_def by (rule clean_Inr)
  from converted_frame [OF wf u] have wu: "well_formed u"
    and cu: "list_all (\<lambda>c. list_all (\<lambda>v. clean_cell v = v) (col_values c)) (columns u)" by simp_all
  have wr: "well_formed r" by (simp add: ru cleanup_well_formed)
  have na: "\<And>c. c \<in> set (columns r) \<Longrightarrow> list_all notna (col_values c)"
    unfolding ru by (rule cleanup_notna)
  have rows_na: "list_all (list_all notna) (rows r)"
    unfolding ru list_all_iff [of _ "rows (cleanup u)"] using cleanup_rows_notna by blast
  have dr: "columns r \<noteq> [] \<longrightarrow> distinct (rows r)"
    unfolding ru using cleanup_distinct_rows by blast
  have cells: "list_all (\<lambda>c. list_all (\<lambda>v. clean_cell v = v) (col_values c)) (columns r)"
    unfolding list_all_iff
  proof (intro ballI)
    fix c v assume c: "c \<in> set (columns r)" and v: "v \<in> set (col_values c)"
    from cleanup_cells [OF wu, of c] c obtain c0 where
      "c0 \<in> set (columns u)" "set (col_values c) \<subseteq> set (col_values c0)"
      by (auto simp: ru)
    then show "clean_cell v = v" using cu v by (auto simp: list_all_iff)
  qed
  have allowed_names: "\<And>n. n \<in> set (column_names r) \<Longrightarrow> list_all allowed n"
  proof -
    fix n assume n: "n \<in> set (column_names r)"
    from r obtain cs :: "('n, 'd) series list" and ns where
      a: "column_names r = map col_name (filter (\<lambda>c. list_ex notna (col_values c)) cs)"
      and b: "map col_name cs = map sub_special ns"
      by (rule clean_column_names_sub)
    from n have "n \<in> set (map col_name cs)" unfolding a by auto
    then have "n \<in> set (map sub_special ns)" unfolding b .
    then show "list_all allowed n" using sub_special_allowed by auto
  qed
  have s1: "rename_columns strip r = r"
    by (rule rename_columns_id) (simp add: strip_allowed allowed_names)
  have s2: "clean_names r = r"
    unfolding clean_names_def drop_duplicate_columns_id [OF names]
    by (rule rename_columns_id) (simp add: sub_special_id allowed_names)
  have s3: "applymap clean_cell r = r" by (rule applymap_id [OF cells])
  have p: "prepared r = r" by (simp add: prepared_def s1 s2 s3)
  have d1: "dropna_columns r = r"
  proof (rule dropna_columns_id, unfold list_all_iff, rule ballI)
    fix c assume c: "c \<in> set (columns r)"
    then have "0 < nrows r" using shape by auto
    moreover have "length (col_values c) = nrows r" using wr c by (simp add: well_formed_def list_all_iff)
    ultimately obtain v vs where "col_values c = v # vs" by (cases "col_values c") auto
    then show "list_ex notna (col_values c)" using na [OF c] by simp
  qed
  have d2: "drop_duplicates r = r" by (rule drop_duplicates_id [OF wr dr])
  have d3: "dropna_rows r = r" by (rule dropna_rows_id [OF wr rows_na])
  have "cleanup r = r" by (simp add: cleanup_def d1 d2 d3)
  then show ?thesis by (simp add: clean_prepared p types)
qed

text \<open>
  The theorem at the end-to-end scenario of the specification.
\<close>

theorem second_pass_is_identity_witness:
  "well_formed
     (frame 6 [(''Name '', ObjectDtype, [Text ''ann'', Text ''bob'', Text ''NULL'', Text ''cat'', Text ''ann'', Text ''dan'']),
               (''Name'', ObjectDtype, [Text ''a'', Text ''b'', Text ''c'', Text ''d'', Text ''e'', Text ''f'']),
               (''Date'', ObjectDtype, [Text ''2021-01-01'', Text ''2021-01-02'', Text ''2021-01-03'',
                                        Text ''2021-01-04'', Text ''2021-01-01'', Text ''2021/13/45'']),
               (''Amt'', ObjectDtype, [Text ''1'', Text ''2'', Text ''3'', Text ''4'', Text ''1'', Text ''6''])])
   \<and> clean iso_dates decimals
     (frame 6 [(''Name '', ObjectDtype, [Text ''ann'', Text ''bob'', Text ''NULL'', Text ''cat'', Text ''ann'', Text ''dan'']),
               (''Name'', ObjectDtype, [Text ''a'', Text ''b'', Text ''c'', Text ''d'', Text ''e'', Text ''f'']),
               (''Date'', ObjectDtype, [Text ''2021-01-01'', Text ''2021-01-02'', Text ''2021-01-03'',
                                        Text ''2021-01-04'', Text ''2021-01-01'', Text ''2021/13/45'']),
               (''Amt'', ObjectDtype, [Text ''1'', Text ''2'', Text ''3'', Text ''4'', Text ''1'', Text ''6''])])
   = Inr (frame 3 [(''Name'', ObjectDtype, [Text ''ann'', Text ''bob'', Text ''cat'']),
                   (''Date'', DatetimeDtype, [DateTime ''2021-01-01'', DateTime ''2021-01-02'', DateTime ''2021-01-04'']),
                   (''Amt'', NumericDtype, [Number 1, Number 2, Number 4])])
   \<and> clean iso_dates decimals
       (frame 3 [(''Name'', ObjectDtype, [Text ''ann'', Text ''bob'', Text ''cat'']),
                   (''Date'', DatetimeDtype, [DateTime ''2021-01-01'', DateTime ''2021-01-02'', DateTime ''2021-01-04'']),
                   (''Amt'', NumericDtype, [Number 1, Number 2, Number 4])])
   = Inr (frame 3 [(''Name'', ObjectDtype, [Text ''ann'', Text ''bob'', Text ''cat'']),
                   (''Date'', DatetimeDtype, [DateTime ''2021-01-01'', DateTime ''2021-01-02'', DateTime ''2021-01-04'']),
                   (''Amt'', NumericDtype, [Number 1, Number 2, Number 4])])"
proof -
  let ?t = "frame 6 [(''Name '', ObjectDtype, [Text ''ann'', Text ''bob'', Text ''NULL'', Text ''cat'', Text ''ann'', Text ''dan'']),
               (''Name'', ObjectDtype, [Text ''a'', Text ''b'', Text ''c'', Text ''d'', Text ''e'', Text ''f'']),
               (''Date'', ObjectDtype, [Text ''2021-01-01'', Text ''2021-01-02'', Text ''2021-01-03'',
                                        Text ''2021-01-04'', Text ''2021-01-01'', Text ''2021/13/45'']),
               (''Amt'', ObjectDtype, [Text ''1'', Text ''2'', Text ''3'', Text ''4'', Text ''1'', Text ''6''])]"
  let ?r = "frame 3 [(''Name'', ObjectDtype, [Text ''ann'', Text ''bob'', Text ''cat'']),
                   (''Date'', DatetimeDtype, [DateTime ''2021-01-01'', DateTime ''2021-01-02'', DateTime ''2021-01-04'']),
                   (''Amt'', NumericDtype, [Number 1, Number 2, Number 4])]"
  have w: "well_formed ?t" by code_simp
  have c: "clean iso_dates decimals ?t = Inr ?r" by code_simp
  have d: "distinct (column_names ?r)" by code_simp
  have ty: "convert_types iso_dates decimals ?r = Inr ?r" by code_simp
  have s: "0 < nrows ?r \<or> columns ?r = []" by (simp add: frame_def)
  from second_pass_is_identity [OF w c d ty s] w c show ?thesis by blast
qed

end
